theory Spec2Isabelle
  imports Complex_Main "HOL-Library.Log_Nat"
begin

section \<open>Python values read from the two JSON files\<close>

text \<open>
  \<^verbatim>\<open>computeSales.py\<close> works on what \<^verbatim>\<open>json.load\<close> returns: \<^verbatim>\<open>None\<close>, booleans,
  unbounded integers, floats, strings, lists and dictionaries with string keys.

  A string is held as the bytes of its UTF-8 encoding. JSON can spell a lone surrogate
  (\<^verbatim>\<open>"\\ud800"\<close>), which Python keeps in the string; it is held as the three bytes that
  its code point would have (\<open>ED A0 80\<close> for that one).

  A Python float is an IEEE-754 binary64 number. It is modelled by its exact rational
  value, or one of the two infinities, or NaN. The two zeros \<^verbatim>\<open>0.0\<close> and \<^verbatim>\<open>-0.0\<close> are one
  value \<open>Fin 0\<close>: they are equal in Python, hash alike, are both falsy, and addition and
  multiplication give the same non-zero results on either.
\<close>

datatype pyfloat = Fin rat | PInf | NInf | NaN

datatype pyval =
    PNone
  | PBool bool
  | PInt int
  | PFloat pyfloat
  | PStr string
  | PList "pyval list"
  | PDict "(string \<times> pyval) list"

text \<open>
  A JSON object is a dictionary with string keys, kept as the list of its items (a key
  occurs once in a dictionary; of a list that repeats a key, the first item is the
  one read). \<^verbatim>\<open>d.get(k)\<close> returns \<^verbatim>\<open>None\<close> for a key that is not there.
\<close>

type_synonym pydict = "(string \<times> pyval) list"

definition dict_get :: "pydict \<Rightarrow> string \<Rightarrow> pyval" where
  "dict_get d k = (case map_of d k of None \<Rightarrow> PNone | Some v \<Rightarrow> v)"

text \<open>Truthiness, as \<^verbatim>\<open>if x:\<close> and \<^verbatim>\<open>not x\<close> decide it. NaN and the infinities are truthy.\<close>

fun truthy :: "pyval \<Rightarrow> bool" where
  "truthy PNone = False"
| "truthy (PBool b) = b"
| "truthy (PInt n) = (n \<noteq> 0)"
| "truthy (PFloat f) = (f \<noteq> Fin 0)"
| "truthy (PStr s) = (s \<noteq> [])"
| "truthy (PList xs) = (xs \<noteq> [])"
| "truthy (PDict d) = (d \<noteq> [])"

text \<open>
  The numbers: \<^verbatim>\<open>isinstance(x, (int, float))\<close> holds of integers, of floats, and of
  booleans, since \<^verbatim>\<open>bool\<close> is a subclass of \<^verbatim>\<open>int\<close>. \<open>as_num\<close> returns the number a value
  is, and \<open>None\<close> where the \<^verbatim>\<open>isinstance\<close> test is false.
\<close>

datatype pynum = NBool bool | NInt int | NFloat pyfloat

fun as_num :: "pyval \<Rightarrow> pynum option" where
  "as_num (PBool b) = Some (NBool b)"
| "as_num (PInt n) = Some (NInt n)"
| "as_num (PFloat f) = Some (NFloat f)"
| "as_num _ = None"

definition isinstance_int_float :: "pyval \<Rightarrow> bool" where
  "isinstance_int_float v = (as_num v \<noteq> None)"

text \<open>
  The exceptions of a run: \<^verbatim>\<open>TypeError\<close> for an unhashable dictionary key,
  \<^verbatim>\<open>OverflowError\<close> for an integer that no float holds, and \<open>PrintError\<close> for what
  \<^verbatim>\<open>print\<close> raises on a line that the standard output does not take
  (\<^verbatim>\<open>UnicodeEncodeError\<close>, for a text its encoding does not have).
\<close>

datatype pyerror = TypeError | OverflowError | PrintError

subsection \<open>Dictionary keys\<close>

text \<open>
  A dictionary finds a key by hash and \<^verbatim>\<open>==\<close>. \<^verbatim>\<open>True\<close>, \<^verbatim>\<open>1\<close> and \<^verbatim>\<open>1.0\<close> are equal and hash
  alike, so they are one key; an integer and a float are compared by exact value. Lists
  and dictionaries are unhashable: using one as a key raises \<^verbatim>\<open>TypeError\<close>. The JSON
  decoder returns one and the same object for every \<^verbatim>\<open>NaN\<close> literal, and a dictionary
  compares by identity first, so NaN is a key equal to itself.
\<close>

datatype pykey = KNone | KNum rat | KPInf | KNInf | KNaN | KStr string

fun key_of :: "pyval \<Rightarrow> pykey option" where
  "key_of PNone = Some KNone"
| "key_of (PBool b) = Some (KNum (if b then 1 else 0))"
| "key_of (PInt n) = Some (KNum (of_int n))"
| "key_of (PFloat (Fin r)) = Some (KNum r)"
| "key_of (PFloat PInf) = Some KPInf"
| "key_of (PFloat NInf) = Some KNInf"
| "key_of (PFloat NaN) = Some KNaN"
| "key_of (PStr s) = Some (KStr s)"
| "key_of (PList xs) = None"
| "key_of (PDict d) = None"

section \<open>Float arithmetic\<close>

text \<open>
  \<open>ilog2 a\<close> is the integer \<open>k\<close> with \<open>2^k \<le> a < 2^(k+1)\<close>, for a positive rational \<open>a\<close>.
\<close>

definition ilog2 :: "rat \<Rightarrow> int" where
  "ilog2 a = (let (n, d) = quotient_of a; k = bitlen n - bitlen d
              in if 2 powi k \<le> a then k else k - 1)"

definition round_half_even :: "rat \<Rightarrow> int" where
  "round_half_even r =
     (let f = \<lfloor>r\<rfloor>; d = r - of_int f
      in if d < 1 / 2 then f else if 1 / 2 < d then f + 1
         else if even f then f else f + 1)"

text \<open>
  The exponent of the last place of a binary64 number of magnitude \<open>a\<close>: 53 significant
  bits, and no exponent below \<open>-1074\<close> (the subnormal numbers).
\<close>

definition fexp :: "rat \<Rightarrow> int" where
  "fexp a = max (ilog2 a - 52) (- 1074)"

text \<open>
  Rounding an exact value to the nearest binary64 number, ties to even; a value that
  rounds to \<open>2^1024\<close> or more overflows to an infinity.
\<close>

definition overflow_threshold :: rat where
  "overflow_threshold = 2 ^ 1024"

definition round_double :: "rat \<Rightarrow> pyfloat" where
  "round_double q =
     (if q = 0 then Fin 0
      else let a = \<bar>q\<bar>; e = fexp a;
               v = of_int (round_half_even (a / 2 powi e)) * 2 powi e
           in if overflow_threshold \<le> v then (if 0 < q then PInf else NInf)
              else Fin (if 0 < q then v else - v))"

fun fadd :: "pyfloat \<Rightarrow> pyfloat \<Rightarrow> pyfloat" where
  "fadd NaN y = NaN"
| "fadd x NaN = NaN"
| "fadd PInf NInf = NaN"
| "fadd NInf PInf = NaN"
| "fadd PInf y = PInf"
| "fadd NInf y = NInf"
| "fadd (Fin x) PInf = PInf"
| "fadd (Fin x) NInf = NInf"
| "fadd (Fin x) (Fin y) = round_double (x + y)"

fun fmul :: "pyfloat \<Rightarrow> pyfloat \<Rightarrow> pyfloat" where
  "fmul NaN y = NaN"
| "fmul x NaN = NaN"
| "fmul PInf PInf = PInf"
| "fmul PInf NInf = NInf"
| "fmul NInf PInf = NInf"
| "fmul NInf NInf = PInf"
| "fmul PInf (Fin y) = (if y = 0 then NaN else if 0 < y then PInf else NInf)"
| "fmul NInf (Fin y) = (if y = 0 then NaN else if 0 < y then NInf else PInf)"
| "fmul (Fin x) PInf = (if x = 0 then NaN else if 0 < x then PInf else NInf)"
| "fmul (Fin x) NInf = (if x = 0 then NaN else if 0 < x then NInf else PInf)"
| "fmul (Fin x) (Fin y) = round_double (x * y)"

text \<open>Python's \<^verbatim>\<open><=\<close> on floats: every comparison with NaN is false.\<close>

fun fle :: "pyfloat \<Rightarrow> pyfloat \<Rightarrow> bool" where
  "fle NaN y = False"
| "fle x NaN = False"
| "fle NInf y = True"
| "fle x PInf = True"
| "fle PInf y = False"
| "fle x NInf = False"
| "fle (Fin x) (Fin y) = (x \<le> y)"

text \<open>Python's \<^verbatim>\<open><\<close> on floats.\<close>

fun flt :: "pyfloat \<Rightarrow> pyfloat \<Rightarrow> bool" where
  "flt NaN y = False"
| "flt x NaN = False"
| "flt x NInf = False"
| "flt PInf y = False"
| "flt NInf y = True"
| "flt (Fin x) PInf = True"
| "flt (Fin x) (Fin y) = (x < y)"

text \<open>
  A finite value is a binary64 number when rounding leaves it as it is. Every float of
  a run is one: it is \<open>0.0\<close>, or read from a file, or the result of an operation.
\<close>

definition is_double :: "pyfloat \<Rightarrow> bool" where
  "is_double f = (case f of Fin r \<Rightarrow> round_double r = Fin r | _ \<Rightarrow> True)"

text \<open>
  Converting an integer to a float rounds it, and raises \<^verbatim>\<open>OverflowError\<close> ("int too
  large to convert to float") where the rounded value is out of range.
\<close>

definition float_of_int :: "int \<Rightarrow> pyerror + pyfloat" where
  "float_of_int n =
     (case round_double (of_int n) of Fin r \<Rightarrow> Inr (Fin r) | _ \<Rightarrow> Inl OverflowError)"

definition int_of_bool :: "bool \<Rightarrow> int" where
  "int_of_bool b = (if b then 1 else 0)"

text \<open>
  \<^verbatim>\<open>price * quantity\<close> on numbers. Booleans and integers multiply as integers, exactly.
  When one operand is a float the other is converted to a float first.
\<close>

fun to_float :: "pynum \<Rightarrow> pyerror + pyfloat" where
  "to_float (NBool b) = float_of_int (int_of_bool b)"
| "to_float (NInt n) = float_of_int n"
| "to_float (NFloat f) = Inr f"

fun int_like :: "pynum \<Rightarrow> int option" where
  "int_like (NBool b) = Some (int_of_bool b)"
| "int_like (NInt n) = Some n"
| "int_like (NFloat f) = None"

definition num_mul :: "pynum \<Rightarrow> pynum \<Rightarrow> pyerror + pynum" where
  "num_mul x y =
     (case (int_like x, int_like y) of
        (Some m, Some n) \<Rightarrow> Inr (NInt (m * n))
      | _ \<Rightarrow> (case to_float x of Inl e \<Rightarrow> Inl e
             | Inr a \<Rightarrow> (case to_float y of Inl e \<Rightarrow> Inl e
                        | Inr b \<Rightarrow> Inr (NFloat (fmul a b)))))"

text \<open>\<^verbatim>\<open>total_cost += c\<close>, with \<^verbatim>\<open>total_cost\<close> a float.\<close>

definition float_iadd :: "pyfloat \<Rightarrow> pynum \<Rightarrow> pyerror + pyfloat" where
  "float_iadd t c = (case to_float c of Inl e \<Rightarrow> Inl e | Inr x \<Rightarrow> Inr (fadd t x))"


section \<open>The catalogue builder\<close>

text \<open>
  The price catalogue is a dictionary from product titles to prices. Only a value that
  passes \<^verbatim>\<open>isinstance(price, (int, float))\<close> is ever stored, so its values are numbers.
\<close>

type_synonym catalogue = "pykey \<rightharpoonup> pynum"

text \<open>
  One round of the loop of \<^verbatim>\<open>create_price_catalogue\<close>:
  \<^verbatim>\<open>
    title = item.get("title")
    price = item.get("price")
    if title and isinstance(price, (int, float)):
        price_dict[title] = price
  \<close>
  The assignment raises \<^verbatim>\<open>TypeError\<close> for an unhashable title. Nothing is printed.
\<close>

definition catalogue_step :: "catalogue \<Rightarrow> pydict \<Rightarrow> pyerror + catalogue" where
  "catalogue_step price_dict item =
     (let title = dict_get item ''title'';
          price = dict_get item ''price''
      in if truthy title then
           (case as_num price of
              None \<Rightarrow> Inr price_dict
            | Some p \<Rightarrow>
                (case key_of title of
                   None \<Rightarrow> Inl TypeError
                 | Some k \<Rightarrow> Inr (price_dict(k \<mapsto> p))))
         else Inr price_dict)"

fun catalogue_loop :: "catalogue \<Rightarrow> pydict list \<Rightarrow> pyerror + catalogue" where
  "catalogue_loop price_dict [] = Inr price_dict"
| "catalogue_loop price_dict (item # rest) =
     (case catalogue_step price_dict item of
        Inl e \<Rightarrow> Inl e
      | Inr price_dict' \<Rightarrow> catalogue_loop price_dict' rest)"

definition create_price_catalogue :: "pydict list \<Rightarrow> pyerror + catalogue" where
  "create_price_catalogue product_list = catalogue_loop Map.empty product_list"

text \<open>The test of the \<^verbatim>\<open>if\<close>, and the key an entry is stored under.\<close>

definition passes_filter :: "pydict \<Rightarrow> bool" where
  "passes_filter item =
     (truthy (dict_get item ''title'') \<and> isinstance_int_float (dict_get item ''price''))"

definition title_key :: "pydict \<Rightarrow> pykey option" where
  "title_key item = key_of (dict_get item ''title'')"

text \<open>
  The filter in the words of the specification: the title is truthy and the price is an
  integer or a floating-point number, and neither a boolean nor a string.
\<close>

fun plain_number :: "pyval \<Rightarrow> bool" where
  "plain_number (PInt n) = True"
| "plain_number (PFloat f) = True"
| "plain_number _ = False"

definition spec_includes :: "pydict \<Rightarrow> bool" where
  "spec_includes item =
     (truthy (dict_get item ''title'') \<and> plain_number (dict_get item ''price''))"

section \<open>The aggregator\<close>

text \<open>
  The three warnings that \<^verbatim>\<open>func_total_cost\<close> prints, each with the values its text is
  formatted from: the sale record; the product name and the quantity; the product name.
  What a run has printed is the list of its warnings, in order.
\<close>

datatype warning =
    MissingName pydict
  | InvalidQuantity pyval pyval
  | NotFound pyval

text \<open>
  The state of a run: the catalogue (a dictionary object the function could write to),
  the accumulator \<^verbatim>\<open>total_cost\<close>, and the lines printed so far.
\<close>

record run_state =
  price_dict :: catalogue
  total_cost :: pyfloat
  printed :: "warning list"

text \<open>
  \<^verbatim>\<open>print\<close> can raise: the line is encoded for the standard output, and a text that the
  encoding does not have raises \<^verbatim>\<open>UnicodeEncodeError\<close>. Which lines the standard output
  takes belongs to the environment of the run, not to the program, so it is a
  parameter: \<open>out w\<close> says that the line of the warning \<open>w\<close> can be printed.
\<close>

type_synonym stdout = "warning \<Rightarrow> bool"

definition with_line :: "warning \<Rightarrow> run_state \<Rightarrow> run_state" where
  "with_line w st = st\<lparr>printed := printed st @ [w]\<rparr>"

definition print_warning :: "stdout \<Rightarrow> warning \<Rightarrow> run_state \<Rightarrow> pyerror + run_state" where
  "print_warning out w st = (if out w then Inr (with_line w st) else Inl PrintError)"

text \<open>
  The end of the loop body, once name and quantity have passed their checks:
  \<^verbatim>\<open>
    if product_name in price_dict:
        price = price_dict[product_name]
        total_cost += price * quantity
    else:
        print(f"Advertencia: Producto '{product_name}' no encontrado ...")
  \<close>
  The membership test hashes \<^verbatim>\<open>product_name\<close> and raises \<^verbatim>\<open>TypeError\<close> for a list or a
  dictionary.
\<close>

definition add_sale ::
  "stdout \<Rightarrow> run_state \<Rightarrow> pyval \<Rightarrow> pynum \<Rightarrow> pyerror + run_state" where
  "add_sale out st product_name quantity =
     (case key_of product_name of
        None \<Rightarrow> Inl TypeError
      | Some k \<Rightarrow>
          (case price_dict st k of
             None \<Rightarrow> print_warning out (NotFound product_name) st
           | Some price \<Rightarrow>
               (case num_mul price quantity of
                  Inl e \<Rightarrow> Inl e
                | Inr c \<Rightarrow>
                    (case float_iadd (total_cost st) c of
                       Inl e \<Rightarrow> Inl e
                     | Inr t \<Rightarrow> Inr (st\<lparr>total_cost := t\<rparr>)))))"

text \<open>
  \<^verbatim>\<open>
    if not isinstance(quantity, (int, float)):
        print(f"Advertencia: Cantidad ... '{product_name}': {quantity}")
        continue
  \<close>
\<close>

definition check_quantity ::
  "stdout \<Rightarrow> run_state \<Rightarrow> pyval \<Rightarrow> pyval \<Rightarrow> pyerror + run_state" where
  "check_quantity out st product_name quantity =
     (case as_num quantity of
        None \<Rightarrow> print_warning out (InvalidQuantity product_name quantity) st
      | Some q \<Rightarrow> add_sale out st product_name q)"

text \<open>
  One round of the loop:
  \<^verbatim>\<open>
    product_name = sale.get("Product")
    quantity = sale.get("Quantity")
    if not product_name:
        print(f"Advertencia: Venta sin nombre de producto: {sale}")
        continue
  \<close>
\<close>

definition sale_step :: "stdout \<Rightarrow> run_state \<Rightarrow> pydict \<Rightarrow> pyerror + run_state" where
  "sale_step out st sale =
     (let product_name = dict_get sale ''Product'';
          quantity = dict_get sale ''Quantity''
      in if \<not> truthy product_name then print_warning out (MissingName sale) st
         else check_quantity out st product_name quantity)"

text \<open>
  The loop over \<^verbatim>\<open>sales_list\<close>. An exception leaves the loop and the function; the state
  it leaves behind (the lines already printed) comes with the error.
\<close>

type_synonym outcome = "(pyerror \<times> run_state) + run_state"

fun sales_loop :: "stdout \<Rightarrow> run_state \<Rightarrow> pydict list \<Rightarrow> outcome" where
  "sales_loop out st [] = Inr st"
| "sales_loop out st (sale # rest) =
     (case sale_step out st sale of
        Inl e \<Rightarrow> Inl (e, st)
      | Inr st' \<Rightarrow> sales_loop out st' rest)"

definition initial :: "catalogue \<Rightarrow> run_state" where
  "initial C = \<lparr>price_dict = C, total_cost = Fin 0, printed = []\<rparr>"

text \<open>
  \<^verbatim>\<open>func_total_cost(price_dict, sales_list)\<close>, run with the standard output \<open>out\<close>: the
  value returned is \<open>total_cost\<close> of the final state.
\<close>

definition func_total_cost :: "stdout \<Rightarrow> catalogue \<Rightarrow> pydict list \<Rightarrow> outcome" where
  "func_total_cost out C sales_list = sales_loop out (initial C) sales_list"

definition final_state :: "outcome \<Rightarrow> run_state" where
  "final_state r = (case r of Inl (e, st) \<Rightarrow> st | Inr st \<Rightarrow> st)"


section \<open>The specification's reading of the aggregator\<close>

text \<open>
  A sale record counts when its product name is truthy, its quantity is numeric and its
  product is in the catalogue. An unhashable name is in no dictionary.
\<close>

definition in_catalogue :: "catalogue \<Rightarrow> pyval \<Rightarrow> bool" where
  "in_catalogue C product_name =
     (case key_of product_name of None \<Rightarrow> False | Some k \<Rightarrow> C k \<noteq> None)"

definition counted :: "catalogue \<Rightarrow> pydict \<Rightarrow> bool" where
  "counted C sale =
     (truthy (dict_get sale ''Product'')
      \<and> isinstance_int_float (dict_get sale ''Quantity'')
      \<and> in_catalogue C (dict_get sale ''Product''))"

text \<open>\<open>price(p) * q\<close> of a record, in Python's arithmetic; zero for a record without one.\<close>

definition contribution :: "catalogue \<Rightarrow> pydict \<Rightarrow> pyerror + pynum" where
  "contribution C sale =
     (case (key_of (dict_get sale ''Product''), as_num (dict_get sale ''Quantity'')) of
        (Some k, Some q) \<Rightarrow>
          (case C k of None \<Rightarrow> Inr (NInt 0) | Some price \<Rightarrow> num_mul price q)
      | _ \<Rightarrow> Inr (NInt 0))"

text \<open>The sum of a list of terms, added one after the other to a float.\<close>

fun py_sum :: "pyfloat \<Rightarrow> (pyerror + pynum) list \<Rightarrow> pyerror + pyfloat" where
  "py_sum t [] = Inr t"
| "py_sum t (c # cs) =
     (case c of
        Inl e \<Rightarrow> Inl e
      | Inr n \<Rightarrow> (case to_float n of Inl e \<Rightarrow> Inl e | Inr x \<Rightarrow> py_sum (fadd t x) cs))"

definition spec_total :: "catalogue \<Rightarrow> pydict list \<Rightarrow> pyerror + pyfloat" where
  "spec_total C sales_list =
     py_sum (Fin 0) (map (contribution C) (filter (counted C) sales_list))"

text \<open>
  The anomaly of a record, if it has one: no product name, a quantity that is not a
  number, a product that is not in the catalogue.
\<close>

definition anomaly :: "catalogue \<Rightarrow> pydict \<Rightarrow> warning option" where
  "anomaly C sale =
     (let product_name = dict_get sale ''Product'';
          quantity = dict_get sale ''Quantity''
      in if \<not> truthy product_name then Some (MissingName sale)
         else if \<not> isinstance_int_float quantity
           then Some (InvalidQuantity product_name quantity)
         else if \<not> in_catalogue C product_name then Some (NotFound product_name)
         else None)"

text \<open>
  The three ways a record can make the function raise: a list or a dictionary as
  product name reaches the catalogue lookup; an integer too large for a float is
  converted; the warning of the record is a line that the standard output does not
  take.
\<close>

definition lookup_safe :: "pydict \<Rightarrow> bool" where
  "lookup_safe sale =
     (truthy (dict_get sale ''Product'')
      \<and> isinstance_int_float (dict_get sale ''Quantity'')
      \<longrightarrow> key_of (dict_get sale ''Product'') \<noteq> None)"

definition arith_safe :: "catalogue \<Rightarrow> pydict \<Rightarrow> bool" where
  "arith_safe C sale =
     (case contribution C sale of
        Inl e \<Rightarrow> False
      | Inr c \<Rightarrow> (case to_float c of Inl e \<Rightarrow> False | Inr x \<Rightarrow> True))"

definition print_safe :: "stdout \<Rightarrow> catalogue \<Rightarrow> pydict \<Rightarrow> bool" where
  "print_safe out C sale = (case anomaly C sale of None \<Rightarrow> True | Some w \<Rightarrow> out w)"

text \<open>A contribution that is zero or more, by Python's \<^verbatim>\<open>0 <= price * quantity\<close>.\<close>

fun num_nonneg :: "pynum \<Rightarrow> bool" where
  "num_nonneg (NBool b) = True"
| "num_nonneg (NInt n) = (0 \<le> n)"
| "num_nonneg (NFloat f) = fle (Fin 0) f"

definition nonneg_contribution :: "catalogue \<Rightarrow> pydict \<Rightarrow> bool" where
  "nonneg_contribution C sale =
     (case contribution C sale of Inl e \<Rightarrow> True | Inr c \<Rightarrow> num_nonneg c)"

section \<open>The aggregator as a relation\<close>

text \<open>
  The same loop body, one rule for each path through it: a run of the program is a
  derivation, and the outcome of a run is what the derivation ends in.
\<close>

inductive sale_exec :: "stdout \<Rightarrow> run_state \<Rightarrow> pydict \<Rightarrow> pyerror + run_state \<Rightarrow> bool" where
  no_name:
    "\<not> truthy (dict_get sale ''Product'')
     \<Longrightarrow> out (MissingName sale)
     \<Longrightarrow> sale_exec out st sale (Inr (with_line (MissingName sale) st))"
| no_name_unprinted:
    "\<not> truthy (dict_get sale ''Product'')
     \<Longrightarrow> \<not> out (MissingName sale)
     \<Longrightarrow> sale_exec out st sale (Inl PrintError)"
| bad_quantity:
    "truthy (dict_get sale ''Product'')
     \<Longrightarrow> as_num (dict_get sale ''Quantity'') = None
     \<Longrightarrow> out (InvalidQuantity (dict_get sale ''Product'') (dict_get sale ''Quantity''))
     \<Longrightarrow> sale_exec out st sale
           (Inr (with_line (InvalidQuantity (dict_get sale ''Product'')
                              (dict_get sale ''Quantity'')) st))"
| bad_quantity_unprinted:
    "truthy (dict_get sale ''Product'')
     \<Longrightarrow> as_num (dict_get sale ''Quantity'') = None
     \<Longrightarrow> \<not> out (InvalidQuantity (dict_get sale ''Product'') (dict_get sale ''Quantity''))
     \<Longrightarrow> sale_exec out st sale (Inl PrintError)"
| unhashable:
    "truthy (dict_get sale ''Product'')
     \<Longrightarrow> as_num (dict_get sale ''Quantity'') = Some q
     \<Longrightarrow> key_of (dict_get sale ''Product'') = None
     \<Longrightarrow> sale_exec out st sale (Inl TypeError)"
| not_found:
    "truthy (dict_get sale ''Product'')
     \<Longrightarrow> as_num (dict_get sale ''Quantity'') = Some q
     \<Longrightarrow> key_of (dict_get sale ''Product'') = Some k
     \<Longrightarrow> price_dict st k = None
     \<Longrightarrow> out (NotFound (dict_get sale ''Product''))
     \<Longrightarrow> sale_exec out st sale
           (Inr (with_line (NotFound (dict_get sale ''Product'')) st))"
| not_found_unprinted:
    "truthy (dict_get sale ''Product'')
     \<Longrightarrow> as_num (dict_get sale ''Quantity'') = Some q
     \<Longrightarrow> key_of (dict_get sale ''Product'') = Some k
     \<Longrightarrow> price_dict st k = None
     \<Longrightarrow> \<not> out (NotFound (dict_get sale ''Product''))
     \<Longrightarrow> sale_exec out st sale (Inl PrintError)"
| product_raises:
    "truthy (dict_get sale ''Product'')
     \<Longrightarrow> as_num (dict_get sale ''Quantity'') = Some q
     \<Longrightarrow> key_of (dict_get sale ''Product'') = Some k
     \<Longrightarrow> price_dict st k = Some price
     \<Longrightarrow> num_mul price q = Inl e
     \<Longrightarrow> sale_exec out st sale (Inl e)"
| sum_raises:
    "truthy (dict_get sale ''Product'')
     \<Longrightarrow> as_num (dict_get sale ''Quantity'') = Some q
     \<Longrightarrow> key_of (dict_get sale ''Product'') = Some k
     \<Longrightarrow> price_dict st k = Some price
     \<Longrightarrow> num_mul price q = Inr c
     \<Longrightarrow> float_iadd (total_cost st) c = Inl e
     \<Longrightarrow> sale_exec out st sale (Inl e)"
| accumulated:
    "truthy (dict_get sale ''Product'')
     \<Longrightarrow> as_num (dict_get sale ''Quantity'') = Some q
     \<Longrightarrow> key_of (dict_get sale ''Product'') = Some k
     \<Longrightarrow> price_dict st k = Some price
     \<Longrightarrow> num_mul price q = Inr c
     \<Longrightarrow> float_iadd (total_cost st) c = Inr t
     \<Longrightarrow> sale_exec out st sale (Inr (st\<lparr>total_cost := t\<rparr>))"

inductive run_exec :: "stdout \<Rightarrow> run_state \<Rightarrow> pydict list \<Rightarrow> outcome \<Rightarrow> bool" where
  finished: "run_exec out st [] (Inr st)"
| raised: "sale_exec out st sale (Inl e) \<Longrightarrow> run_exec out st (sale # rest) (Inl (e, st))"
| continued:
    "sale_exec out st sale (Inr st') \<Longrightarrow> run_exec out st' rest r
     \<Longrightarrow> run_exec out st (sale # rest) r"

definition func_total_cost_run ::
  "stdout \<Rightarrow> catalogue \<Rightarrow> pydict list \<Rightarrow> outcome \<Rightarrow> bool" where
  "func_total_cost_run out C sales_list r = run_exec out (initial C) sales_list r"

text \<open>Negation of a float, for the symmetry of rounding.\<close>

fun fneg :: "pyfloat \<Rightarrow> pyfloat" where
  "fneg (Fin r) = Fin (- r)"
| "fneg PInf = NInf"
| "fneg NInf = PInf"
| "fneg NaN = NaN"

section \<open>Example data\<close>

text \<open>
  The standard output as Python sets it up by default: UTF-8, with strict error
  handling. It takes every text but one with a lone surrogate in it. The
  missing-name warning shows the record by \<^verbatim>\<open>repr\<close>, which escapes surrogates, and so do
  the other two for a name or quantity that is a list or a dictionary; a name or a
  quantity that is a string goes into the line as it is.
\<close>

fun has_surrogate :: "string \<Rightarrow> bool" where
  "has_surrogate (a # b # s) =
     ((a = CHR 0xED \<and> (0xA0 :: nat) \<le> of_char b) \<or> has_surrogate (b # s))"
| "has_surrogate s = False"

fun raw_text_ok :: "pyval \<Rightarrow> bool" where
  "raw_text_ok (PStr s) = (\<not> has_surrogate s)"
| "raw_text_ok v = True"

fun utf8_strict :: stdout where
  "utf8_strict (MissingName sale) = True"
| "utf8_strict (InvalidQuantity product_name quantity) =
     (raw_text_ok product_name \<and> raw_text_ok quantity)"
| "utf8_strict (NotFound product_name) = raw_text_ok product_name"

text \<open>
  The scenario of the specification: the catalogue \<^verbatim>\<open>[{"title":"Gum","price":2.0}]\<close> and
  the sales \<^verbatim>\<open>[{"Product":"Gum","Quantity":3},{"Product":"Candy","Quantity":1}]\<close>.
\<close>

definition gum_products :: "pydict list" where
  "gum_products = [[(''title'', PStr ''Gum''), (''price'', PFloat (Fin 2))]]"

definition gum_catalogue :: catalogue where
  "gum_catalogue = [KStr ''Gum'' \<mapsto> NFloat (Fin 2)]"

definition gum_sales :: "pydict list" where
  "gum_sales = [[(''Product'', PStr ''Gum''), (''Quantity'', PInt 3)],
                [(''Product'', PStr ''Candy''), (''Quantity'', PInt 1)]]"

definition candy_sale :: pydict where
  "candy_sale = [(''Product'', PStr ''Candy''), (''Quantity'', PInt 1)]"

text \<open>
  Three more records: a number as product name, no product name at all, and
  \<^verbatim>\<open>{"Product": "Gum", "Quantity": true}\<close>.
\<close>

definition five_sale :: pydict where
  "five_sale = [(''Product'', PInt 5), (''Quantity'', PInt 1)]"

definition nameless_sale :: pydict where
  "nameless_sale = [(''Quantity'', PInt 1)]"

definition bool_sale :: pydict where
  "bool_sale = [(''Product'', PStr ''Gum''), (''Quantity'', PBool True)]"


text \<open>
  Product entries: \<^verbatim>\<open>{"title": "Gum", "price": true}\<close>, an entry with an empty title, and
  a second price for Gum.
\<close>

definition bool_product :: pydict where
  "bool_product = [(''title'', PStr ''Gum''), (''price'', PBool True)]"

definition untitled_product :: pydict where
  "untitled_product = [(''title'', PStr ''''), (''price'', PInt 7)]"

definition gum_repriced :: pydict where
  "gum_repriced = [(''title'', PStr ''Gum''), (''price'', PInt 3)]"


text \<open>A record with a list as product name: \<^verbatim>\<open>{"Product": ["Gum"], "Quantity": 1}\<close>.\<close>

definition list_sale :: pydict where
  "list_sale = [(''Product'', PList [PStr ''Gum'']), (''Quantity'', PInt 1)]"


text \<open>A refund, \<^verbatim>\<open>{"Product": "Gum", "Quantity": -1}\<close>, and the first sale of the scenario.\<close>

definition refund_sale :: pydict where
  "refund_sale = [(''Product'', PStr ''Gum''), (''Quantity'', PInt (- 1))]"

definition gum_sale :: pydict where
  "gum_sale = [(''Product'', PStr ''Gum''), (''Quantity'', PInt 3)]"


text \<open>
  A catalogue with a price too large for a float, the integer \<open>10^400\<close> (JSON integers
  are unbounded in Python).
\<close>

definition huge_catalogue :: catalogue where
  "huge_catalogue = [KStr ''Gum'' \<mapsto> NInt (10 ^ 400)]"


text \<open>A record whose product name is a lone surrogate: \<^verbatim>\<open>{"Product": "\ud800", "Quantity": 1}\<close>.\<close>

definition surrogate_sale :: pydict where
  "surrogate_sale = [(''Product'', PStr [CHR 0xED, CHR 0xA0, CHR 0x80]), (''Quantity'', PInt 1)]"

section \<open>Properties of the float arithmetic\<close>

lemma powi_two_pos: "0 < (2::rat) powi k"
  by (simp add: power_int_def)

lemma powi_two_mono: "i \<le> j \<Longrightarrow> (2::rat) powi i \<le> 2 powi j"
  by (rule power_int_increasing) simp_all

lemma powi_two_strict_mono: "i < j \<Longrightarrow> (2::rat) powi i < 2 powi j"
  by (rule power_int_strict_increasing) simp_all

lemma powi_two_Suc: "(2::rat) powi (k + 1) = 2 * 2 powi k"
  by (simp add: power_int_add)

lemma bitlen_rat_bounds:
  assumes "0 < n"
  shows "(2::rat) powi (bitlen n - 1) \<le> of_int n" and "of_int n < (2::rat) powi bitlen n"
proof -
  from assms have b1: "1 \<le> bitlen n"
    by (simp add: bitlen_alt_def)
  from bitlen_bounds [OF assms]
  have lo: "2 ^ nat (bitlen n - 1) \<le> n" and hi: "n < 2 ^ nat (bitlen n)" by simp_all
  have "(of_int (2 ^ nat (bitlen n - 1)) :: rat) \<le> of_int n"
    using lo by (simp only: of_int_le_iff)
  then show "(2::rat) powi (bitlen n - 1) \<le> of_int n"
    using b1 by (simp add: power_int_def)
  have "(of_int n :: rat) < of_int (2 ^ nat (bitlen n))"
    using hi by (simp only: of_int_less_iff)
  then show "of_int n < (2::rat) powi bitlen n"
    using b1 by (simp add: power_int_def)
qed

lemma ilog2_bounds:
  assumes "0 < a"
  shows "2 powi ilog2 a \<le> a" and "a < 2 powi (ilog2 a + 1)"
proof -
  obtain n d where qd: "quotient_of a = (n, d)" by (cases "quotient_of a")
  then have dpos: "0 < d" by (rule quotient_of_denom_pos)
  have a_eq: "a = of_int n / of_int d" using qd by (rule quotient_of_div)
  have npos: "0 < n"
    using assms dpos by (simp add: a_eq zero_less_divide_iff)
  define k where "k = bitlen n - bitlen d"
  have il: "ilog2 a = (if 2 powi k \<le> a then k else k - 1)"
    by (simp add: ilog2_def qd k_def Let_def)
  have dr: "(0::rat) < of_int d" using dpos by simp
  have up: "a < 2 powi (k + 1)"
  proof -
    have "a * of_int d = of_int n" using dr by (simp add: a_eq)
    also have "\<dots> < 2 powi bitlen n" by (rule bitlen_rat_bounds [OF npos])
    also have "\<dots> = 2 powi (k + 1) * 2 powi (bitlen d - 1)"
      by (simp add: k_def power_int_add [symmetric])
    also have "\<dots> \<le> 2 powi (k + 1) * of_int d"
      using bitlen_rat_bounds(1) [OF dpos] powi_two_pos [of "k + 1"]
      by (simp add: mult_left_mono)
    finally show ?thesis using dr by simp
  qed
  have low: "2 powi (k - 1) \<le> a"
  proof -
    have "(2::rat) powi (k - 1) * of_int d \<le> 2 powi (k - 1) * 2 powi bitlen d"
      using bitlen_rat_bounds(2) [OF dpos] powi_two_pos [of "k - 1"]
      by (simp add: mult_left_mono)
    also have "\<dots> = 2 powi (bitlen n - 1)"
      by (simp add: k_def power_int_add [symmetric])
    also have "\<dots> \<le> of_int n" by (rule bitlen_rat_bounds [OF npos])
    also have "\<dots> = a * of_int d" using dr by (simp add: a_eq)
    finally show ?thesis using dr by simp
  qed
  show "2 powi ilog2 a \<le> a" using low by (simp add: il)
  show "a < 2 powi (ilog2 a + 1)"
  proof (cases "2 powi k \<le> a")
    case True then show ?thesis using up by (simp add: il)
  next
    case False then show ?thesis by (simp add: il)
  qed
qed

lemma ilog2_unique:
  assumes "2 powi k \<le> a" and "a < 2 powi (k + 1)"
  shows "ilog2 a = k"
proof -
  have apos: "0 < a" using assms(1) powi_two_pos [of k] by (rule less_le_trans [rotated])
  note b = ilog2_bounds [OF apos]
  have "\<not> ilog2 a < k"
  proof
    assume "ilog2 a < k"
    then have "2 powi (ilog2 a + 1) \<le> (2::rat) powi k" by (intro powi_two_mono) simp
    with b(2) assms(1) show False by simp
  qed
  moreover have "\<not> k < ilog2 a"
  proof
    assume "k < ilog2 a"
    then have "2 powi (k + 1) \<le> (2::rat) powi ilog2 a" by (intro powi_two_mono) simp
    with b(1) assms(2) show False by simp
  qed
  ultimately show ?thesis by simp
qed

lemma ilog2_mono:
  assumes "0 < a" and "a \<le> b"
  shows "ilog2 a \<le> ilog2 b"
proof (rule ccontr)
  assume "\<not> ilog2 a \<le> ilog2 b"
  then have "2 powi (ilog2 b + 1) \<le> (2::rat) powi ilog2 a" by (intro powi_two_mono) simp
  moreover have "0 < b" using assms by simp
  ultimately show False
    using ilog2_bounds(1) [OF assms(1)] ilog2_bounds(2) [of b] assms(2) by simp
qed


lemma round_half_even_of_int: "round_half_even (of_int m) = m"
  by (simp add: round_half_even_def)

lemma round_half_even_ge_floor: "\<lfloor>r\<rfloor> \<le> round_half_even r"
  by (simp add: round_half_even_def Let_def)

lemma round_half_even_le: "round_half_even r \<le> \<lfloor>r\<rfloor> + 1"
  by (simp add: round_half_even_def Let_def)

lemma fexp_le_iff: "fexp a \<le> g \<longleftrightarrow> ilog2 a - 52 \<le> g \<and> - 1074 \<le> g"
  by (simp add: fexp_def)

lemma round_double_on_grid:
  assumes xpos: "0 < x" and x_eq: "x = of_int m * 2 powi g" and g: "fexp x \<le> g"
    and small: "x < overflow_threshold"
  shows "round_double x = Fin x"
proof -
  define e where "e = fexp x"
  have p: "(of_int (m * 2 ^ nat (g - e)) :: rat) = of_int m * 2 powi (g - e)"
    using g by (simp add: e_def power_int_def)
  have "x / 2 powi e = of_int m * 2 powi (g - e)"
    by (simp add: x_eq power_int_diff)
  then have "x / 2 powi e = of_int (m * 2 ^ nat (g - e))"
    by (simp only: p)
  then have "round_half_even (x / 2 powi e) = m * 2 ^ nat (g - e)"
    by (simp only: round_half_even_of_int)
  then have "of_int (round_half_even (x / 2 powi e)) * 2 powi e
      = of_int m * 2 powi (g - e) * (2::rat) powi e"
    by (simp only: p)
  also have "\<dots> = x"
    by (simp add: x_eq power_int_add [symmetric] mult.assoc)
  finally have v: "of_int (round_half_even (x / 2 powi e)) * 2 powi e = x" .
  show ?thesis
    using xpos small v by (simp add: round_double_def Let_def e_def [symmetric])
qed


lemma round_double_minus: "round_double (- q) = fneg (round_double q)"
  by (simp add: round_double_def Let_def)

lemma round_double_of_int:
  assumes "\<bar>n\<bar> < 2 ^ 53"
  shows "round_double (of_int n) = Fin (of_int n)"
proof -
  have pos: "round_double (of_int k) = Fin (of_int k)" if "0 < k" "k < 2 ^ 53" for k :: int
  proof -
    have kpos: "(0::rat) < of_int k" using that by simp
    have "(of_int k :: rat) < of_int (2 ^ 53)" using that by (simp only: of_int_less_iff)
    then have k53: "(of_int k :: rat) < 2 powi 53" by simp
    have "ilog2 (of_int k) < 53"
    proof (rule ccontr)
      assume "\<not> ilog2 (of_int k) < 53"
      then have "(2::rat) powi 53 \<le> 2 powi ilog2 (of_int k)" by (intro powi_two_mono) simp
      with ilog2_bounds(1) [OF kpos] k53 show False by simp
    qed
    then have g: "fexp (of_int k) \<le> 0" by (simp add: fexp_le_iff)
    have "(of_int k :: rat) < overflow_threshold"
      using k53 powi_two_strict_mono [of 53 1024] by (simp add: overflow_threshold_def)
    then show ?thesis
      using round_double_on_grid [OF kpos _ g, of k] by simp
  qed
  consider "n = 0" | "0 < n" | "n < 0" by linarith
  then show ?thesis
  proof cases
    case 1 then show ?thesis by (simp add: round_double_def)
  next
    case 2 with assms show ?thesis by (simp add: pos)
  next
    case 3
    with assms have "round_double (of_int (- n)) = Fin (of_int (- n))"
      by (intro pos) simp_all
    then show ?thesis
      using round_double_minus [of "of_int n"] by (cases "round_double (of_int n)") simp_all
  qed
qed

lemma float_of_int_small: "\<bar>n\<bar> < 2 ^ 53 \<Longrightarrow> float_of_int n = Inr (Fin (of_int n))"
  by (simp add: float_of_int_def round_double_of_int)


lemma round_double_numeral:
  "numeral k < (2::int) ^ 53 \<Longrightarrow> round_double (numeral k) = Fin (numeral k)"
  using round_double_of_int [of "numeral k"] by simp

lemma round_double_zero: "round_double 0 = Fin 0"
  by (simp add: round_double_def)

lemma round_double_one: "round_double 1 = Fin 1"
  using round_double_of_int [of 1] by simp

lemma float_of_int_numeral:
  "numeral k < (2::int) ^ 53 \<Longrightarrow> float_of_int (numeral k) = Inr (Fin (numeral k))"
  using float_of_int_small [of "numeral k"] by simp

lemma float_of_int_zero: "float_of_int 0 = Inr (Fin 0)"
  using float_of_int_small [of 0] by simp

lemma float_of_int_one: "float_of_int 1 = Inr (Fin 1)"
  using float_of_int_small [of 1] by simp

lemmas float_eval = round_double_numeral round_double_zero round_double_one
  float_of_int_numeral float_of_int_zero float_of_int_one

subsection \<open>Rounding is monotone and idempotent on the binary64 numbers\<close>

lemma round_half_even_ge: "of_int m \<le> r \<Longrightarrow> m \<le> round_half_even r"
proof -
  assume "of_int m \<le> r"
  then have "m \<le> \<lfloor>r\<rfloor>" by (simp add: le_floor_iff)
  with round_half_even_ge_floor [of r] show ?thesis by linarith
qed

lemma round_half_even_le_int: "r \<le> of_int m \<Longrightarrow> round_half_even r \<le> m"
proof (cases "r = of_int m")
  case True
  then show ?thesis by (simp add: round_half_even_of_int)
next
  case False
  assume "r \<le> of_int m"
  with False have "r < of_int m" by simp
  then have "\<lfloor>r\<rfloor> < m" by (simp add: floor_less_iff)
  with round_half_even_le [of r] show ?thesis by simp
qed

lemma ilog2_less: "0 < r \<Longrightarrow> r < 2 powi k \<Longrightarrow> ilog2 r < k"
proof (rule ccontr)
  assume r: "0 < r" "r < 2 powi k" and "\<not> ilog2 r < k"
  then have "(2::rat) powi k \<le> 2 powi ilog2 r" by (intro powi_two_mono) simp
  with ilog2_bounds(1) [OF r(1)] r(2) show False by simp
qed

lemma fexp_mono: "0 < a \<Longrightarrow> a \<le> b \<Longrightarrow> fexp a \<le> fexp b"
  using ilog2_mono [of a b] by (simp add: fexp_def)

lemma fexp_ge: "ilog2 a - 52 \<le> fexp a" "- 1074 \<le> fexp a"
  by (simp_all add: fexp_def)

lemma round_double_pos:
  assumes "0 < q"
  shows "round_double q =
    (if overflow_threshold \<le> of_int (round_half_even (q / 2 powi fexp q)) * 2 powi fexp q
     then PInf else Fin (of_int (round_half_even (q / 2 powi fexp q)) * 2 powi fexp q))"
  using assms by (simp add: round_double_def Let_def)

lemma round_double_FinD:
  assumes "0 < q" and "round_double q = Fin r"
  shows "r = of_int (round_half_even (q / 2 powi fexp q)) * 2 powi fexp q"
    and "r < overflow_threshold"
  using assms by (simp_all add: round_double_pos split: if_splits)

lemma scaled_below: "0 < a \<Longrightarrow> a / 2 powi fexp a < 2 ^ 53"
proof -
  assume apos: "0 < a"
  have "a < 2 powi (ilog2 a + 1)" by (rule ilog2_bounds [OF apos])
  also have "\<dots> \<le> 2 powi (fexp a + 53)"
    using fexp_ge(1) [of a] by (intro powi_two_mono) simp
  also have "\<dots> = 2 powi fexp a * 2 ^ 53" by (simp add: power_int_add)
  finally show ?thesis using powi_two_pos [of "fexp a"] by (simp add: pos_divide_less_eq mult.commute)
qed

lemma mantissa_le: "0 < a \<Longrightarrow> round_half_even (a / 2 powi fexp a) \<le> 2 ^ 53"
  using scaled_below [of a] by (intro round_half_even_le_int) simp

lemma mantissa_nonneg: "0 < a \<Longrightarrow> 0 \<le> round_half_even (a / 2 powi fexp a)"
  using powi_two_pos [of "fexp a"] by (intro round_half_even_ge) simp

lemma normal_scaled_above:
  assumes "0 < a" and "- 1074 < fexp a"
  shows "2 ^ 52 \<le> a / 2 powi fexp a" and "2 powi (fexp a + 52) \<le> a"
proof -
  from assms(2) have e: "fexp a = ilog2 a - 52" by (simp add: fexp_def)
  have "2 powi (fexp a + 52) \<le> a" using ilog2_bounds(1) [OF assms(1)] by (simp add: e)
  then show "2 powi (fexp a + 52) \<le> a" .
  then have "2 powi fexp a * 2 ^ 52 \<le> a" by (simp add: power_int_add)
  then show "2 ^ 52 \<le> a / 2 powi fexp a"
    using powi_two_pos [of "fexp a"] by (simp add: pos_le_divide_eq mult.commute)
qed

lemma below_next_binade: "0 < a \<Longrightarrow> a < 2 powi (fexp a + 53)"
proof -
  assume apos: "0 < a"
  have "a < 2 powi (ilog2 a + 1)" by (rule ilog2_bounds [OF apos])
  also have "\<dots> \<le> 2 powi (fexp a + 53)"
    using fexp_ge(1) [of a] by (intro powi_two_mono) simp
  finally show ?thesis .
qed


lemma round_double_lower_pos:
  assumes xpos: "0 < x" and rx: "round_double x = Fin x" and le: "x \<le> q"
  shows "fle (Fin x) (round_double q)"
proof -
  from xpos le have qpos: "0 < q" by simp
  define ex where "ex = fexp x"
  define eq where "eq = fexp q"
  define mx where "mx = round_half_even (x / 2 powi ex)"
  define mq where "mq = round_half_even (q / 2 powi eq)"
  have x_eq: "x = of_int mx * 2 powi ex"
    using round_double_FinD(1) [OF xpos rx] by (simp add: mx_def ex_def)
  have e_le: "ex \<le> eq"
    unfolding ex_def eq_def by (rule fexp_mono [OF xpos le])
  have pq: "(0::rat) < 2 powi eq" by (rule powi_two_pos)
  have v_ge: "x \<le> of_int mq * 2 powi eq"
  proof (cases "ex = eq")
    case True
    have "of_int mx = x / 2 powi eq"
      using x_eq pq by (simp add: True)
    also have "\<dots> \<le> q / 2 powi eq"
      using le pq by (simp add: divide_right_mono)
    finally have "mx \<le> mq" unfolding mq_def by (rule round_half_even_ge)
    then have "(of_int mx :: rat) \<le> of_int mq" by simp
    then have "of_int mx * 2 powi eq \<le> (of_int mq :: rat) * 2 powi eq"
      using pq by (simp add: mult_right_mono)
    then show ?thesis using x_eq by (simp add: True)
  next
    case False
    with e_le have lt: "ex < eq" by simp
    have "- 1074 \<le> ex" unfolding ex_def by (rule fexp_ge)
    with lt have normal: "- 1074 < fexp q" by (simp add: eq_def)
    have "of_int (2 ^ 52) \<le> q / 2 powi eq"
      using normal_scaled_above(1) [OF qpos normal] by (simp add: eq_def)
    then have "2 ^ 52 \<le> mq" unfolding mq_def by (rule round_half_even_ge)
    then have "(of_int (2 ^ 52) :: rat) \<le> of_int mq" by (simp only: of_int_le_iff)
    then have big: "(2 ^ 52 :: rat) * 2 powi eq \<le> of_int mq * 2 powi eq"
      using pq by (simp add: mult_right_mono)
    have "x < 2 powi (ex + 53)"
      unfolding ex_def by (rule below_next_binade [OF xpos])
    also have "\<dots> \<le> 2 powi (eq + 52)"
      using lt by (intro powi_two_mono) simp
    also have "\<dots> = (2 ^ 52 :: rat) * 2 powi eq" by (simp add: power_int_add)
    finally have "x < (2 ^ 52 :: rat) * 2 powi eq" .
    from less_le_trans [OF this big] show ?thesis by (rule less_imp_le)
  qed
  show ?thesis
    using v_ge by (simp add: round_double_pos [OF qpos] mq_def eq_def)
qed

lemma round_double_upper_pos:
  assumes apos: "0 < a" and le: "a \<le> b" and rb: "round_double b = Fin b"
  shows "\<exists>v. round_double a = Fin v \<and> 0 \<le> v \<and> v \<le> b"
proof -
  from apos le have bpos: "0 < b" by simp
  define ea where "ea = fexp a"
  define eb where "eb = fexp b"
  define ma where "ma = round_half_even (a / 2 powi ea)"
  define mb where "mb = round_half_even (b / 2 powi eb)"
  have b_eq: "b = of_int mb * 2 powi eb"
    using round_double_FinD(1) [OF bpos rb] by (simp add: mb_def eb_def)
  have b_small: "b < overflow_threshold"
    by (rule round_double_FinD(2) [OF bpos rb])
  have e_le: "ea \<le> eb"
    unfolding ea_def eb_def by (rule fexp_mono [OF apos le])
  have pa: "(0::rat) < 2 powi ea" by (rule powi_two_pos)
  have ma0: "0 \<le> ma" unfolding ma_def ea_def by (rule mantissa_nonneg [OF apos])
  have v_le: "of_int ma * 2 powi ea \<le> b"
  proof (cases "ea = eb")
    case True
    have "a / 2 powi ea \<le> b / 2 powi ea"
      using le pa by (simp add: divide_right_mono)
    also have "\<dots> = of_int mb"
      using b_eq pa by (simp add: True)
    finally have "ma \<le> mb" unfolding ma_def by (rule round_half_even_le_int)
    then have "(of_int ma :: rat) \<le> of_int mb" by simp
    then have "of_int ma * 2 powi ea \<le> (of_int mb :: rat) * 2 powi ea"
      using pa by (simp add: mult_right_mono)
    then show ?thesis using b_eq by (simp add: True)
  next
    case False
    with e_le have lt: "ea < eb" by simp
    have "- 1074 \<le> ea" unfolding ea_def by (rule fexp_ge)
    with lt have normal: "- 1074 < fexp b" by (simp add: eb_def)
    have "ma \<le> 2 ^ 53" unfolding ma_def ea_def by (rule mantissa_le [OF apos])
    then have "(of_int ma :: rat) \<le> of_int (2 ^ 53)" by (simp only: of_int_le_iff)
    then have "of_int ma * 2 powi ea \<le> (2 ^ 53 :: rat) * 2 powi ea"
      using pa by (simp add: mult_right_mono)
    also have "\<dots> = 2 powi (ea + 53)" by (simp add: power_int_add)
    also have "\<dots> \<le> 2 powi (eb + 52)"
      using lt by (intro powi_two_mono) simp
    also have "\<dots> \<le> b"
      using normal_scaled_above(2) [OF bpos normal] by (simp add: eb_def)
    finally show ?thesis .
  qed
  have "(0::rat) \<le> of_int ma * 2 powi ea" using ma0 pa by simp
  with v_le b_small show ?thesis
    by (simp add: round_double_pos [OF apos] ma_def ea_def)
qed


lemma round_double_idem_pos:
  assumes qpos: "0 < q" and rq: "round_double q = Fin r"
  shows "round_double r = Fin r"
proof -
  define e where "e = fexp q"
  define m where "m = round_half_even (q / 2 powi e)"
  have r_eq: "r = of_int m * 2 powi e"
    using round_double_FinD(1) [OF qpos rq] by (simp add: m_def e_def)
  have small: "r < overflow_threshold"
    by (rule round_double_FinD(2) [OF qpos rq])
  have m0: "0 \<le> m" unfolding m_def e_def by (rule mantissa_nonneg [OF qpos])
  have m53: "m \<le> 2 ^ 53" unfolding m_def e_def by (rule mantissa_le [OF qpos])
  have e_ge: "- 1074 \<le> e" unfolding e_def by (rule fexp_ge)
  have pe: "(0::rat) < 2 powi e" by (rule powi_two_pos)
  show ?thesis
  proof (cases "m = 0")
    case True
    then show ?thesis by (simp add: r_eq round_double_zero)
  next
    case False
    with m0 have mpos: "0 < m" by simp
    then have rpos: "0 < r" using pe by (simp add: r_eq)
    show ?thesis
    proof (cases "m = 2 ^ 53")
      case False
      with m53 have "m < 2 ^ 53" by simp
      then have "(of_int m :: rat) < of_int (2 ^ 53)" by (simp only: of_int_less_iff)
      then have "of_int m * 2 powi e < (2 ^ 53 :: rat) * 2 powi e"
        using pe by (simp add: mult_strict_right_mono)
      also have "\<dots> = 2 powi (e + 53)" by (simp add: power_int_add)
      finally have "r < 2 powi (e + 53)" by (simp add: r_eq)
      from ilog2_less [OF rpos this] e_ge have "fexp r \<le> e"
        by (simp add: fexp_le_iff)
      from round_double_on_grid [OF rpos r_eq this small] show ?thesis .
    next
      case True
      have "(of_int m :: rat) = 2 ^ 53" by (simp add: True)
      then have r53: "r = 2 powi (e + 53)" by (simp add: r_eq power_int_add)
      have "ilog2 r = e + 53"
      proof (rule ilog2_unique)
        show "2 powi (e + 53) \<le> r" by (simp add: r53)
        show "r < 2 powi (e + 53 + 1)"
          unfolding r53 by (rule powi_two_strict_mono) simp
      qed
      with e_ge have g: "fexp r \<le> e + 1" by (simp add: fexp_le_iff)
      have "r = of_int (2 ^ 52) * 2 powi (e + 1)"
        by (simp add: r53 power_int_add)
      from round_double_on_grid [OF rpos this g small] show ?thesis .
    qed
  qed
qed

lemma round_double_idem:
  assumes "round_double q = Fin r"
  shows "round_double r = Fin r"
proof -
  consider "q = 0" | "0 < q" | "q < 0" by linarith
  then show ?thesis
  proof cases
    case 1
    with assms show ?thesis by (auto simp: round_double_zero)
  next
    case 2
    then show ?thesis using assms by (rule round_double_idem_pos)
  next
    case 3
    then have "0 < - q" by simp
    moreover have "round_double (- q) = Fin (- r)"
      by (simp add: round_double_minus assms)
    ultimately have "round_double (- r) = Fin (- r)" by (rule round_double_idem_pos)
    then show ?thesis using round_double_minus [of "- r"] by simp
  qed
qed

lemma round_double_nonneg: "0 \<le> q \<Longrightarrow> fle (Fin 0) (round_double q)"
proof (cases "q = 0")
  case True
  then show ?thesis by (simp add: round_double_zero)
next
  case False
  assume "0 \<le> q"
  with False have qpos: "0 < q" by simp
  have "(0::rat) \<le> of_int (round_half_even (q / 2 powi fexp q)) * 2 powi fexp q"
    using mantissa_nonneg [OF qpos] powi_two_pos [of "fexp q"] by simp
  then show ?thesis by (simp add: round_double_pos [OF qpos])
qed

lemma round_double_lower:
  assumes rx: "round_double x = Fin x" and le: "x \<le> q"
  shows "fle (Fin x) (round_double q)"
proof -
  consider "0 < x" | "x \<le> 0" "0 \<le> q" | "q < 0" by linarith
  then show ?thesis
  proof cases
    case 1
    then show ?thesis using rx le by (rule round_double_lower_pos)
  next
    case 2
    from round_double_nonneg [OF 2(2)] 2(1) show ?thesis
      by (cases "round_double q") simp_all
  next
    case 3
    then have apos: "0 < - q" by simp
    from le have ab: "- q \<le> - x" by simp
    have "round_double (- x) = Fin (- x)" by (simp add: round_double_minus rx)
    from round_double_upper_pos [OF apos ab this]
    obtain v where v: "round_double (- q) = Fin v" "v \<le> - x" by blast
    from v(1) round_double_minus [of "- q"] have "round_double q = Fin (- v)" by simp
    with v(2) show ?thesis by simp
  qed
qed

lemma fle_not_flt: "fle a b \<Longrightarrow> \<not> flt b a"
  by (cases a; cases b) simp_all

lemma is_double_fadd: "is_double (fadd t c)"
proof (cases "\<exists>x y. t = Fin x \<and> c = Fin y")
  case True
  then obtain x y where "t = Fin x" "c = Fin y" by blast
  then show ?thesis
    by (cases "round_double (x + y)") (simp_all add: is_double_def round_double_idem)
next
  case False
  then show ?thesis by (cases t; cases c) (simp_all add: is_double_def)
qed

lemma fadd_never_decreases:
  assumes "is_double t" and "fle (Fin 0) c"
  shows "\<not> flt (fadd t c) t"
proof (cases "\<exists>x y. t = Fin x \<and> c = Fin y")
  case True
  then obtain x y where t: "t = Fin x" and c: "c = Fin y" by blast
  from assms t c have "round_double x = Fin x" and "x \<le> x + y"
    by (simp_all add: is_double_def)
  then have "fle (Fin x) (round_double (x + y))" by (rule round_double_lower)
  then show ?thesis by (simp add: t c fle_not_flt)
next
  case False
  with assms(2) show ?thesis by (cases t; cases c) simp_all
qed

lemma round_double_overflows:
  assumes "overflow_threshold \<le> q"
  shows "round_double q = PInf"
proof -
  have t: "overflow_threshold = 2 powi 1024" by (simp add: overflow_threshold_def)
  have qpos: "0 < q" using assms powi_two_pos [of 1024] by (simp add: t)
  have "ilog2 (2 powi 1024) = 1024"
    by (rule ilog2_unique) (simp_all add: powi_two_strict_mono)
  with ilog2_mono [of "2 powi 1024" q] assms have big: "1024 \<le> ilog2 q"
    using powi_two_pos [of 1024] by (simp add: t)
  then have normal: "- 1074 < fexp q" by (simp add: fexp_def)
  have "of_int (2 ^ 52) \<le> q / 2 powi fexp q"
    using normal_scaled_above(1) [OF qpos normal] by simp
  then have "2 ^ 52 \<le> round_half_even (q / 2 powi fexp q)" by (rule round_half_even_ge)
  then have "(of_int (2 ^ 52) :: rat) \<le> of_int (round_half_even (q / 2 powi fexp q))"
    by (simp only: of_int_le_iff)
  then have "(2 ^ 52 :: rat) * 2 powi fexp q
      \<le> of_int (round_half_even (q / 2 powi fexp q)) * 2 powi fexp q"
    using powi_two_pos [of "fexp q"] by (simp add: mult_right_mono)
  moreover have "overflow_threshold \<le> (2 ^ 52 :: rat) * 2 powi fexp q"
  proof -
    have "(2::rat) powi 1024 \<le> 2 powi (fexp q + 52)"
      using big fexp_ge(1) [of q] by (intro powi_two_mono) simp
    then show ?thesis by (simp add: t power_int_add mult.commute)
  qed
  ultimately have "overflow_threshold
      \<le> of_int (round_half_even (q / 2 powi fexp q)) * 2 powi fexp q"
    by (rule order_trans [rotated])
  then show ?thesis by (simp add: round_double_pos [OF qpos])
qed

lemma float_of_int_overflows: "2 ^ 1024 \<le> n \<Longrightarrow> float_of_int n = Inl OverflowError"
proof -
  assume "2 ^ 1024 \<le> n"
  then have "(of_int (2 ^ 1024) :: rat) \<le> of_int n" by (simp only: of_int_le_iff)
  then have "overflow_threshold \<le> of_int n" by (simp add: overflow_threshold_def)
  then show ?thesis by (simp add: float_of_int_def round_double_overflows)
qed

lemma float_of_int_nonneg:
  assumes "0 \<le> n" and "float_of_int n = Inr x"
  shows "fle (Fin 0) x"
proof -
  from assms(1) have "fle (Fin 0) (round_double (of_int n))"
    by (intro round_double_nonneg) simp
  with assms(2) show ?thesis
    by (cases "round_double (of_int n)") (simp_all add: float_of_int_def)
qed

lemma to_float_nonneg:
  assumes "num_nonneg c" and "to_float c = Inr x"
  shows "fle (Fin 0) x"
proof (cases c)
  case (NBool b)
  with assms(2) show ?thesis
    by (intro float_of_int_nonneg [of "int_of_bool b"]) (simp_all add: int_of_bool_def)
next
  case (NInt n)
  with assms show ?thesis by (intro float_of_int_nonneg [of n]) simp_all
next
  case (NFloat f)
  with assms show ?thesis by simp
qed


lemma round_double_neg_numeral:
  "numeral k < (2::int) ^ 53 \<Longrightarrow> round_double (- numeral k) = Fin (- numeral k)"
  using round_double_of_int [of "- numeral k"] by simp

lemma round_double_neg_one: "round_double (- 1) = Fin (- 1)"
  using round_double_of_int [of "- 1"] by simp

lemma float_of_int_neg_numeral:
  "numeral k < (2::int) ^ 53 \<Longrightarrow> float_of_int (- numeral k) = Inr (Fin (- numeral k))"
  using float_of_int_small [of "- numeral k"] by simp

lemma float_of_int_neg_one: "float_of_int (- 1) = Inr (Fin (- 1))"
  using float_of_int_small [of "- 1"] by simp

lemmas float_eval_neg = round_double_neg_numeral round_double_neg_one
  float_of_int_neg_numeral float_of_int_neg_one

lemma flt_irrefl: "\<not> flt t t"
  by (cases t) simp_all


section \<open>The numeric test\<close>

lemma isinstance_iff: "isinstance_int_float v \<longleftrightarrow> (\<exists>q. as_num v = Some q)"
  by (simp add: isinstance_int_float_def)

section \<open>Printing\<close>

lemma utf8_strict_ascii:
  "utf8_strict (NotFound (PStr ''Candy''))" "utf8_strict (NotFound (PInt 5))"
  "utf8_strict (MissingName sale)"
  by simp_all

lemma utf8_strict_surrogate: "\<not> utf8_strict (NotFound (PStr [CHR 0xED, CHR 0xA0, CHR 0x80]))"
  by simp

lemma print_warning_Inr:
  "print_warning out w st = Inr st' \<longleftrightarrow> out w \<and> st' = with_line w st"
  by (auto simp: print_warning_def)

lemma with_line_neq: "w \<noteq> w' \<Longrightarrow> with_line w st \<noteq> with_line w' st"
proof
  assume "w \<noteq> w'" and "with_line w st = with_line w' st"
  then have "printed (with_line w st) = printed (with_line w' st)" by simp
  with \<open>w \<noteq> w'\<close> show False by (simp add: with_line_def)
qed

lemma with_line_neq_total: "with_line w st \<noteq> st\<lparr>total_cost := t\<rparr>"
proof
  assume "with_line w st = st\<lparr>total_cost := t\<rparr>"
  then have "printed (with_line w st) = printed (st\<lparr>total_cost := t\<rparr>)" by simp
  then show False by (simp add: with_line_def)
qed

lemma total_neq_with_line: "st\<lparr>total_cost := t\<rparr> \<noteq> with_line w st"
  using with_line_neq_total [of w st t] by (rule not_sym)

lemma print_warning_other:
  "w \<noteq> w' \<Longrightarrow> print_warning out w st \<noteq> Inr (with_line w' st)"
  by (simp add: print_warning_def with_line_neq)

lemmas run_defs = func_total_cost_def initial_def sale_step_def check_quantity_def
  add_sale_def print_warning_def with_line_def dict_get_def num_mul_def float_iadd_def

section \<open>The catalogue is only read\<close>

lemma add_sale_price_dict:
  "add_sale out st p q = Inr st' \<Longrightarrow> price_dict st' = price_dict st"
  by (auto simp: add_sale_def print_warning_def with_line_def
      split: option.splits sum.splits if_splits)

lemma sale_step_price_dict:
  "sale_step out st sale = Inr st' \<Longrightarrow> price_dict st' = price_dict st"
  by (auto simp: sale_step_def check_quantity_def print_warning_def with_line_def Let_def
      dest: add_sale_price_dict split: option.splits if_splits)

lemma sales_loop_price_dict:
  "price_dict (final_state (sales_loop out st S)) = price_dict st"
proof (induction S arbitrary: st)
  case Nil
  show ?case by (simp add: final_state_def)
next
  case (Cons sale rest)
  show ?case
  proof (cases "sale_step out st sale")
    case (Inl e)
    then show ?thesis by (simp add: final_state_def)
  next
    case (Inr st')
    with Cons.IH [of st'] sale_step_price_dict [OF Inr] show ?thesis by simp
  qed
qed

text \<open>
  Claim C8. \<^verbatim>\<open>func_total_cost\<close> never modifies the price catalogue: whatever the
  catalogue and the sales list, and whether the call returns or raises, the catalogue
  of the final state is the catalogue the call was given.
\<close>

theorem func_total_cost_keeps_catalogue:
  "price_dict (final_state (func_total_cost out C sales_list)) = C"
  by (simp add: func_total_cost_def sales_loop_price_dict initial_def)

section \<open>A product that is not in the catalogue\<close>

text \<open>
  Claim C7, as the code has it. A sale record with a truthy product name that can be
  hashed (not a list, not a dictionary) and a numeric quantity, whose product is absent
  from the catalogue, contributes nothing to the total and causes exactly one
  warning, which names that product: the state changes in its printed lines only. That
  is so when the standard output takes the line; when it does not, \<^verbatim>\<open>print\<close> raises. The
  claim as stated fails on \<^verbatim>\<open>{"Product": ["Gum"], "Quantity": 1}\<close>: a list is in no
  catalogue, and looking it up raises \<^verbatim>\<open>TypeError\<close> before any warning.
\<close>

theorem absent_product_warns_once:
  assumes "truthy (dict_get sale ''Product'')"
    and "isinstance_int_float (dict_get sale ''Quantity'')"
    and "key_of (dict_get sale ''Product'') = Some k"
    and "price_dict st k = None"
  shows "sale_step out st sale =
           (if out (NotFound (dict_get sale ''Product''))
            then Inr (st\<lparr>printed := printed st @ [NotFound (dict_get sale ''Product'')]\<rparr>)
            else Inl PrintError)"
  using assms
  by (auto simp: sale_step_def check_quantity_def add_sale_def print_warning_def
      with_line_def isinstance_iff)

theorem absent_product_counterexample:
  "truthy (dict_get list_sale ''Product'')
   \<and> isinstance_int_float (dict_get list_sale ''Quantity'')
   \<and> \<not> in_catalogue gum_catalogue (dict_get list_sale ''Product'')
   \<and> sale_step utf8_strict (initial gum_catalogue) list_sale = Inl TypeError"
  by (simp add: list_sale_def dict_get_def isinstance_int_float_def in_catalogue_def
      sale_step_def check_quantity_def add_sale_def)

theorem absent_product_warns_once_witness:
  "truthy (dict_get candy_sale ''Product'')
   \<and> isinstance_int_float (dict_get candy_sale ''Quantity'')
   \<and> key_of (dict_get candy_sale ''Product'') = Some (KStr ''Candy'')
   \<and> price_dict (initial gum_catalogue) (KStr ''Candy'') = None
   \<and> utf8_strict (NotFound (PStr ''Candy''))
   \<and> sale_step utf8_strict (initial gum_catalogue) candy_sale =
       Inr \<lparr>price_dict = gum_catalogue, total_cost = Fin 0,
            printed = [NotFound (PStr ''Candy'')]\<rparr>"
proof -
  have h1: "truthy (dict_get candy_sale ''Product'')"
    by (simp add: candy_sale_def dict_get_def)
  have h2: "isinstance_int_float (dict_get candy_sale ''Quantity'')"
    by (simp add: candy_sale_def dict_get_def isinstance_int_float_def)
  have h3: "key_of (dict_get candy_sale ''Product'') = Some (KStr ''Candy'')"
    by (simp add: candy_sale_def dict_get_def)
  have h4: "price_dict (initial gum_catalogue) (KStr ''Candy'') = None"
    by (simp add: initial_def gum_catalogue_def)
  have g: "dict_get candy_sale ''Product'' = PStr ''Candy''"
    by (simp add: candy_sale_def dict_get_def)
  from absent_product_warns_once [OF h1 h2 h3 h4, of utf8_strict] h1 h2 h3 h4
  show ?thesis
    by (simp add: g initial_def utf8_strict_ascii)
qed

text \<open>A name that can be hashed and cannot be printed: the warning raises.\<close>

lemma surrogate_name_raises:
  "func_total_cost utf8_strict gum_catalogue (surrogate_sale # gum_sales)
     = Inl (PrintError, initial gum_catalogue)"
  by (simp add: surrogate_sale_def gum_catalogue_def run_defs)

section \<open>The product-name check\<close>

lemma add_sale_not_missing:
  "add_sale out st p q \<noteq> Inr (with_line (MissingName sale) st)"
  using print_warning_other [of "NotFound p" "MissingName sale" out st]
  by (auto simp: add_sale_def total_neq_with_line split: option.splits sum.splits)

lemma add_sale_not_invalid:
  "add_sale out st p q \<noteq> Inr (with_line (InvalidQuantity p' q') st)"
  using print_warning_other [of "NotFound p" "InvalidQuantity p' q'" out st]
  by (auto simp: add_sale_def total_neq_with_line split: option.splits sum.splits)

lemma check_quantity_not_missing:
  "check_quantity out st p q \<noteq> Inr (with_line (MissingName sale) st)"
  using print_warning_other [of "InvalidQuantity p q" "MissingName sale" out st]
  by (auto simp: check_quantity_def add_sale_not_missing split: option.splits)

text \<open>
  Claim C10. The product-name check rejects exactly the falsy values. A record whose
  \<^verbatim>\<open>Product\<close> is truthy, a non-zero number as well as a non-empty string, passes the
  check and goes on to the quantity check and the catalogue lookup, and the
  missing-name warning is not what the round prints; for a record whose \<^verbatim>\<open>Product\<close> is
  missing, \<^verbatim>\<open>None\<close>, empty or otherwise falsy, the round is the printing of the
  missing-name warning and nothing else.
\<close>

theorem name_check_rejects_falsy:
  "(\<not> truthy (dict_get sale ''Product'')
      \<longrightarrow> sale_step out st sale = print_warning out (MissingName sale) st)
   \<and> (truthy (dict_get sale ''Product'')
      \<longrightarrow> sale_step out st sale
            = check_quantity out st (dict_get sale ''Product'') (dict_get sale ''Quantity'')
        \<and> sale_step out st sale \<noteq> Inr (with_line (MissingName sale) st))"
  by (simp add: sale_step_def Let_def check_quantity_not_missing)

theorem name_check_rejects_falsy_witness:
  "truthy (dict_get five_sale ''Product'')
   \<and> sale_step utf8_strict (initial gum_catalogue) five_sale
       = check_quantity utf8_strict (initial gum_catalogue) (PInt 5) (PInt 1)
   \<and> sale_step utf8_strict (initial gum_catalogue) five_sale
       \<noteq> Inr (with_line (MissingName five_sale) (initial gum_catalogue))
   \<and> \<not> truthy (dict_get nameless_sale ''Product'')
   \<and> sale_step utf8_strict (initial gum_catalogue) nameless_sale
       = Inr (with_line (MissingName nameless_sale) (initial gum_catalogue))"
proof -
  have h1: "truthy (dict_get five_sale ''Product'')"
    by (simp add: five_sale_def dict_get_def)
  have h2: "\<not> truthy (dict_get nameless_sale ''Product'')"
    by (simp add: nameless_sale_def dict_get_def)
  have g: "dict_get five_sale ''Product'' = PInt 5" "dict_get five_sale ''Quantity'' = PInt 1"
    by (simp_all add: five_sale_def dict_get_def)
  from name_check_rejects_falsy [of five_sale utf8_strict "initial gum_catalogue"] h1
  have a: "sale_step utf8_strict (initial gum_catalogue) five_sale
       = check_quantity utf8_strict (initial gum_catalogue) (PInt 5) (PInt 1)"
    and b: "sale_step utf8_strict (initial gum_catalogue) five_sale
       \<noteq> Inr (with_line (MissingName five_sale) (initial gum_catalogue))"
    by (auto simp: g)
  from name_check_rejects_falsy [of nameless_sale utf8_strict "initial gum_catalogue"] h2
  have c: "sale_step utf8_strict (initial gum_catalogue) nameless_sale
       = Inr (with_line (MissingName nameless_sale) (initial gum_catalogue))"
    by (simp add: print_warning_def)
  from a b c h1 h2 show ?thesis by blast
qed

section \<open>A boolean quantity\<close>

lemma num_mul_bool: "num_mul price (NBool b) = num_mul price (NInt (int_of_bool b))"
  by (cases price) (simp_all add: num_mul_def)

text \<open>
  Claim C2, as the code has it. A boolean passes \<^verbatim>\<open>isinstance(quantity, (int, float))\<close>,
  so a record with a truthy product name and a boolean quantity is processed exactly as
  the same record with the quantity \<open>1\<close> (for \<^verbatim>\<open>True\<close>) or \<open>0\<close> (for \<^verbatim>\<open>False\<close>), and the
  invalid-quantity warning is not what the round prints. The claim as stated fails on
  \<^verbatim>\<open>{"Product": "Gum", "Quantity": true}\<close>: the total becomes \<open>2.0\<close> and nothing is
  printed.
\<close>

theorem boolean_quantity_is_numeric:
  assumes "truthy (dict_get sale ''Product'')" and "dict_get sale ''Quantity'' = PBool b"
  shows "sale_step out st sale
           = sale_step out st ((''Quantity'', PInt (int_of_bool b)) # sale)
         \<and> sale_step out st sale
            \<noteq> Inr (with_line (InvalidQuantity (dict_get sale ''Product'') (PBool b)) st)"
proof -
  have "add_sale out st p (NBool b) = add_sale out st p (NInt (int_of_bool b))" for p
    by (simp add: add_sale_def num_mul_bool cong: option.case_cong)
  with assms show ?thesis
    by (simp add: sale_step_def check_quantity_def dict_get_def Let_def add_sale_not_invalid)
qed

theorem boolean_quantity_counterexample:
  "func_total_cost utf8_strict gum_catalogue [bool_sale] =
     Inr \<lparr>price_dict = gum_catalogue, total_cost = Fin 2, printed = []\<rparr>"
  by (simp add: bool_sale_def gum_catalogue_def run_defs int_of_bool_def float_eval)

theorem boolean_quantity_is_numeric_witness:
  "truthy (dict_get bool_sale ''Product'')
   \<and> dict_get bool_sale ''Quantity'' = PBool True
   \<and> sale_step utf8_strict (initial gum_catalogue) bool_sale
       = sale_step utf8_strict (initial gum_catalogue) ((''Quantity'', PInt 1) # bool_sale)
   \<and> sale_step utf8_strict (initial gum_catalogue) bool_sale
       \<noteq> Inr (with_line (InvalidQuantity (PStr ''Gum'') (PBool True))
                (initial gum_catalogue))"
proof -
  have h1: "truthy (dict_get bool_sale ''Product'')"
    by (simp add: bool_sale_def dict_get_def)
  have h2: "dict_get bool_sale ''Quantity'' = PBool True"
    by (simp add: bool_sale_def dict_get_def)
  have g: "dict_get bool_sale ''Product'' = PStr ''Gum''"
    by (simp add: bool_sale_def dict_get_def)
  from boolean_quantity_is_numeric [OF h1 h2, of utf8_strict "initial gum_catalogue"] h1 h2
  show ?thesis by (auto simp: g int_of_bool_def)
qed


section \<open>The catalogue builder\<close>

lemma catalogue_step_skip: "\<not> passes_filter item \<Longrightarrow> catalogue_step D item = Inr D"
  by (auto simp: catalogue_step_def passes_filter_def isinstance_int_float_def Let_def
      split: option.splits)

lemma catalogue_step_pass:
  "passes_filter item \<Longrightarrow>
   catalogue_step D item =
     (case title_key item of
        None \<Rightarrow> Inl TypeError
      | Some k \<Rightarrow> Inr (D(k := as_num (dict_get item ''price''))))"
  by (auto simp: catalogue_step_def passes_filter_def isinstance_int_float_def title_key_def
      Let_def split: option.splits)

lemma catalogue_loop_filter:
  "catalogue_loop D (filter passes_filter L) = catalogue_loop D L"
proof (induction L arbitrary: D)
  case Nil
  show ?case by simp
next
  case (Cons item rest)
  show ?case
  proof (cases "passes_filter item")
    case True
    then show ?thesis by (simp add: Cons.IH split: sum.splits)
  next
    case False
    then show ?thesis by (simp add: Cons.IH catalogue_step_skip)
  qed
qed

lemma catalogue_loop_append:
  "catalogue_loop D (xs @ ys) =
     (case catalogue_loop D xs of Inl e \<Rightarrow> Inl e | Inr D' \<Rightarrow> catalogue_loop D' ys)"
  by (induction xs arbitrary: D) (simp_all split: sum.splits)

lemma catalogue_loop_dom:
  "catalogue_loop D L = Inr C \<Longrightarrow>
   k \<in> dom C \<longleftrightarrow> k \<in> dom D \<or> (\<exists>item \<in> set L. passes_filter item \<and> title_key item = Some k)"
proof (induction L arbitrary: D)
  case Nil
  then show ?case by simp
next
  case (Cons item rest)
  show ?case
  proof (cases "passes_filter item")
    case False
    with Cons.prems have "catalogue_loop D rest = Inr C"
      by (simp add: catalogue_step_skip)
    from Cons.IH [OF this] False show ?thesis by auto
  next
    case True
    with Cons.prems obtain k' where k': "title_key item = Some k'"
      and rest: "catalogue_loop (D(k' := as_num (dict_get item ''price''))) rest = Inr C"
      by (auto simp: catalogue_step_pass split: option.splits)
    from True obtain p where p: "as_num (dict_get item ''price'') = Some p"
      by (auto simp: passes_filter_def isinstance_int_float_def)
    from Cons.IH [OF rest] True k' p show ?thesis
      by (cases "k = k'") auto
  qed
qed

lemma catalogue_loop_returns:
  "(\<exists>C. catalogue_loop D L = Inr C) \<longleftrightarrow>
   (\<forall>item \<in> set L. passes_filter item \<longrightarrow> title_key item \<noteq> None)"
proof (induction L arbitrary: D)
  case Nil
  show ?case by simp
next
  case (Cons item rest)
  show ?case
  proof (cases "passes_filter item")
    case False
    then show ?thesis by (simp add: catalogue_step_skip Cons.IH)
  next
    case True
    then show ?thesis
      by (cases "title_key item") (simp_all add: catalogue_step_pass Cons.IH)
  qed
qed

lemma catalogue_loop_keeps:
  "catalogue_loop D L = Inr C \<Longrightarrow>
   \<forall>item \<in> set L. passes_filter item \<longrightarrow> title_key item \<noteq> Some k \<Longrightarrow> C k = D k"
proof (induction L arbitrary: D)
  case Nil
  then show ?case by simp
next
  case (Cons item rest)
  show ?case
  proof (cases "passes_filter item")
    case False
    with Cons.prems have "catalogue_loop D rest = Inr C"
      by (simp add: catalogue_step_skip)
    from Cons.IH [OF this] Cons.prems(2) show ?thesis by simp
  next
    case True
    with Cons.prems(1) obtain k' where k': "title_key item = Some k'"
      and rest: "catalogue_loop (D(k' := as_num (dict_get item ''price''))) rest = Inr C"
      by (auto simp: catalogue_step_pass split: option.splits)
    from Cons.prems(2) True k' have "k' \<noteq> k" by auto
    with Cons.IH [OF rest] Cons.prems(2) show ?thesis by simp
  qed
qed

text \<open>
  Claim C3, as the code has it. An entry is included if and only if its title is truthy
  and its price passes \<^verbatim>\<open>isinstance(price, (int, float))\<close>, which an integer, a float
  and also a boolean do. Entries that fail this test are silently excluded: the
  function does on the whole list what it does on the list without them, and it prints
  nothing. It returns a catalogue unless an entry that passes has an unhashable title,
  and the keys of the catalogue are the titles of the entries that pass. The claim as
  stated fails on \<^verbatim>\<open>[{"title": "Gum", "price": true}]\<close>, which is included.
\<close>

theorem catalogue_filter:
  "create_price_catalogue (filter passes_filter product_list)
     = create_price_catalogue product_list
   \<and> ((\<exists>C. create_price_catalogue product_list = Inr C) \<longleftrightarrow>
      (\<forall>item \<in> set product_list. passes_filter item \<longrightarrow> title_key item \<noteq> None))
   \<and> (\<forall>C k. create_price_catalogue product_list = Inr C \<longrightarrow>
        (k \<in> dom C \<longleftrightarrow>
         (\<exists>item \<in> set product_list. passes_filter item \<and> title_key item = Some k)))"
  using catalogue_loop_dom [of Map.empty product_list]
  by (simp add: create_price_catalogue_def catalogue_loop_filter catalogue_loop_returns)

theorem catalogue_filter_counterexample:
  "create_price_catalogue [bool_product] = Inr [KStr ''Gum'' \<mapsto> NBool True]
   \<and> \<not> spec_includes bool_product"
  by (simp add: create_price_catalogue_def catalogue_step_def bool_product_def dict_get_def
      spec_includes_def)

lemma gum_products_run:
  "create_price_catalogue (gum_products @ [bool_product, untitled_product])
     = Inr [KStr ''Gum'' \<mapsto> NBool True]"
  by (simp add: create_price_catalogue_def catalogue_step_def bool_product_def dict_get_def
      gum_products_def untitled_product_def)

text \<open>
  Claim C6. When several entries that pass the filter share a title, the catalogue maps
  that title to the price of the last of them in input order: an entry that passes and
  is followed by no passing entry of the same title has its own price in the result.
\<close>

theorem last_title_wins:
  assumes "create_price_catalogue (before @ item # after) = Inr C"
    and "passes_filter item"
    and "title_key item = Some k"
    and "\<forall>later \<in> set after. passes_filter later \<longrightarrow> title_key later \<noteq> Some k"
  shows "C k = as_num (dict_get item ''price'') \<and> C k \<noteq> None"
proof -
  from assms(1) obtain D where "catalogue_loop D (item # after) = Inr C"
    by (auto simp: create_price_catalogue_def catalogue_loop_append split: sum.splits)
  with assms(2,3)
  have rest: "catalogue_loop (D(k := as_num (dict_get item ''price''))) after = Inr C"
    by (simp add: catalogue_step_pass)
  from catalogue_loop_keeps [OF rest assms(4)]
  have "C k = as_num (dict_get item ''price'')" by simp
  moreover from assms(2) have "as_num (dict_get item ''price'') \<noteq> None"
    by (simp add: passes_filter_def isinstance_int_float_def)
  ultimately show ?thesis by simp
qed


theorem last_title_wins_witness:
  "create_price_catalogue (gum_products @ gum_repriced # [untitled_product])
     = Inr [KStr ''Gum'' \<mapsto> NInt 3]
   \<and> passes_filter gum_repriced
   \<and> title_key gum_repriced = Some (KStr ''Gum'')
   \<and> [KStr ''Gum'' \<mapsto> NInt 3] (KStr ''Gum'') = as_num (dict_get gum_repriced ''price'')
   \<and> [KStr ''Gum'' \<mapsto> NInt 3] (KStr ''Gum'') \<noteq> None"
proof -
  have h1: "create_price_catalogue (gum_products @ gum_repriced # [untitled_product])
     = Inr [KStr ''Gum'' \<mapsto> NInt 3]"
    by (simp add: create_price_catalogue_def catalogue_step_def gum_repriced_def dict_get_def
        gum_products_def untitled_product_def)
  have h2: "passes_filter gum_repriced"
    by (simp add: passes_filter_def gum_repriced_def dict_get_def isinstance_int_float_def)
  have h3: "title_key gum_repriced = Some (KStr ''Gum'')"
    by (simp add: title_key_def gum_repriced_def dict_get_def)
  have h4: "\<forall>later \<in> set [untitled_product].
         passes_filter later \<longrightarrow> title_key later \<noteq> Some (KStr ''Gum'')"
    by (simp add: passes_filter_def untitled_product_def dict_get_def)
  from last_title_wins [OF h1 h2 h3 h4] h1 h2 h3 h4 show ?thesis by blast
qed

theorem catalogue_filter_witness:
  "create_price_catalogue (filter passes_filter [bool_product, untitled_product])
     = create_price_catalogue [bool_product, untitled_product]
   \<and> create_price_catalogue [bool_product, untitled_product]
       = Inr [KStr ''Gum'' \<mapsto> NBool True]
   \<and> passes_filter bool_product \<and> \<not> passes_filter untitled_product
   \<and> title_key bool_product = Some (KStr ''Gum'')
   \<and> KStr ''Gum'' \<in> dom [KStr ''Gum'' \<mapsto> NBool True]"
proof -
  have h1: "create_price_catalogue [bool_product, untitled_product]
       = Inr [KStr ''Gum'' \<mapsto> NBool True]"
    by (simp add: create_price_catalogue_def catalogue_step_def bool_product_def dict_get_def
        untitled_product_def)
  have h2: "passes_filter bool_product" "\<not> passes_filter untitled_product"
    by (simp_all add: passes_filter_def bool_product_def untitled_product_def dict_get_def
        isinstance_int_float_def)
  have h3: "title_key bool_product = Some (KStr ''Gum'')"
    by (simp add: title_key_def bool_product_def dict_get_def)
  note t = catalogue_filter [of "[bool_product, untitled_product]"]
  from t have a: "create_price_catalogue (filter passes_filter [bool_product, untitled_product])
     = create_price_catalogue [bool_product, untitled_product]"
    by blast
  from t h1 h2 h3 have b: "KStr ''Gum'' \<in> dom [KStr ''Gum'' \<mapsto> NBool True]"
    by (metis list.set_intros(1))
  from a b h1 h2 h3 show ?thesis by blast
qed


section \<open>The scenario of the specification\<close>


section \<open>The total is the sum over the records that count\<close>

lemma counted_iff_no_anomaly: "counted C sale \<longleftrightarrow> anomaly C sale = None"
  by (simp add: counted_def anomaly_def Let_def)

lemma sale_step_anomaly:
  assumes "anomaly (price_dict st) sale = Some w" and "lookup_safe sale"
  shows "sale_step out st sale = print_warning out w st"
  using assms
  by (auto simp: anomaly_def sale_step_def check_quantity_def add_sale_def lookup_safe_def
      in_catalogue_def isinstance_int_float_def Let_def split: if_splits option.splits)

lemma sale_step_counted:
  assumes "counted (price_dict st) sale"
  shows "sale_step out st sale =
    (case contribution (price_dict st) sale of
       Inl e \<Rightarrow> Inl e
     | Inr c \<Rightarrow> (case to_float c of
                  Inl e \<Rightarrow> Inl e
                | Inr x \<Rightarrow> Inr (st\<lparr>total_cost := fadd (total_cost st) x\<rparr>)))"
  using assms
  by (auto simp: counted_def sale_step_def check_quantity_def add_sale_def contribution_def
      in_catalogue_def isinstance_int_float_def float_iadd_def Let_def
      split: option.splits sum.splits)

lemma sale_step_not_counted:
  assumes "\<not> counted (price_dict st) sale" and "sale_step out st sale = Inr st'"
  shows "\<exists>w. st' = with_line w st"
  using assms
  by (auto simp: counted_def sale_step_def check_quantity_def add_sale_def
      in_catalogue_def isinstance_int_float_def print_warning_Inr Let_def
      split: option.splits if_splits)

lemma sales_loop_total:
  "sales_loop out st S = Inr st' \<Longrightarrow>
   py_sum (total_cost st)
     (map (contribution (price_dict st)) (filter (counted (price_dict st)) S))
   = Inr (total_cost st')"
proof (induction S arbitrary: st)
  case Nil
  then show ?case by simp
next
  case (Cons sale rest)
  from Cons.prems obtain st1 where step: "sale_step out st sale = Inr st1"
    and loop: "sales_loop out st1 rest = Inr st'"
    by (auto split: sum.splits)
  from sale_step_price_dict [OF step] have pd: "price_dict st1 = price_dict st" .
  note IH = Cons.IH [OF loop, unfolded pd]
  show ?case
  proof (cases "counted (price_dict st) sale")
    case True
    from step obtain c x where c: "contribution (price_dict st) sale = Inr c"
      and x: "to_float c = Inr x" and t: "total_cost st1 = fadd (total_cost st) x"
      by (auto simp: sale_step_counted [OF True] split: sum.splits)
    from True c x t IH show ?thesis by simp
  next
    case False
    from sale_step_not_counted [OF False step] have "total_cost st1 = total_cost st"
      by (auto simp: with_line_def)
    with False IH show ?thesis by simp
  qed
qed




section \<open>No record stops the run\<close>

lemma sale_step_safe:
  assumes "lookup_safe sale"
    and "counted (price_dict st) sale \<longrightarrow> arith_safe (price_dict st) sale"
    and "print_safe out (price_dict st) sale"
  shows "\<exists>st1. sale_step out st sale = Inr st1 \<and> price_dict st1 = price_dict st
          \<and> printed st1 = printed st @ List.map_filter (anomaly (price_dict st)) [sale]"
proof (cases "anomaly (price_dict st) sale")
  case (Some w)
  with assms(3) have "out w" by (simp add: print_safe_def)
  with Some assms(1) have "sale_step out st sale = Inr (with_line w st)"
    by (simp add: sale_step_anomaly print_warning_def)
  with Some show ?thesis by (simp add: with_line_def map_filter_simps)
next
  case None
  then have cnt: "counted (price_dict st) sale" by (simp add: counted_iff_no_anomaly)
  with assms(2) have "arith_safe (price_dict st) sale" by simp
  then obtain c x where "contribution (price_dict st) sale = Inr c" "to_float c = Inr x"
    by (auto simp: arith_safe_def split: sum.splits)
  then have "sale_step out st sale = Inr (st\<lparr>total_cost := fadd (total_cost st) x\<rparr>)"
    by (simp add: sale_step_counted [OF cnt])
  with None show ?thesis by (simp add: map_filter_simps)
qed

lemma sales_loop_runs:
  assumes "\<forall>sale \<in> set S. lookup_safe sale"
    and "\<forall>sale \<in> set S. counted (price_dict st) sale \<longrightarrow> arith_safe (price_dict st) sale"
    and "\<forall>sale \<in> set S. print_safe out (price_dict st) sale"
  shows "\<exists>st'. sales_loop out st S = Inr st'
           \<and> printed st' = printed st @ List.map_filter (anomaly (price_dict st)) S"
  using assms
proof (induction S arbitrary: st)
  case Nil
  show ?case by (simp add: map_filter_simps)
next
  case (Cons sale rest)
  from Cons.prems have "lookup_safe sale"
    and "counted (price_dict st) sale \<longrightarrow> arith_safe (price_dict st) sale"
    and "print_safe out (price_dict st) sale"
    by simp_all
  from sale_step_safe [OF this]
  obtain st1 where step: "sale_step out st sale = Inr st1"
    and pd: "price_dict st1 = price_dict st"
    and pr: "printed st1 = printed st @ List.map_filter (anomaly (price_dict st)) [sale]"
    by blast
  from Cons.prems have "\<forall>s \<in> set rest. lookup_safe s"
    and "\<forall>s \<in> set rest. counted (price_dict st1) s \<longrightarrow> arith_safe (price_dict st1) s"
    and "\<forall>s \<in> set rest. print_safe out (price_dict st1) s"
    by (simp_all add: pd)
  from Cons.IH [OF this] obtain st' where "sales_loop out st1 rest = Inr st'"
    and "printed st' = printed st1 @ List.map_filter (anomaly (price_dict st1)) rest"
    by blast
  with step pd pr show ?case
    by (cases "anomaly (price_dict st) sale") (simp_all add: map_filter_simps)
qed

text \<open>The converse: a record of a run that returns is safe in all three ways.\<close>

lemma sale_step_returns_safe:
  assumes "sale_step out st sale = Inr st1"
  shows "lookup_safe sale"
    and "counted (price_dict st) sale \<longrightarrow> arith_safe (price_dict st) sale"
    and "print_safe out (price_dict st) sale"
proof -
  show "lookup_safe sale"
    using assms
    by (auto simp: lookup_safe_def sale_step_def check_quantity_def add_sale_def
        isinstance_int_float_def Let_def split: option.splits if_splits)
  show "counted (price_dict st) sale \<longrightarrow> arith_safe (price_dict st) sale"
    using assms by (auto simp: sale_step_counted arith_safe_def split: sum.splits)
  show "print_safe out (price_dict st) sale"
  proof (cases "anomaly (price_dict st) sale")
    case None
    then show ?thesis by (simp add: print_safe_def)
  next
    case (Some w)
    from \<open>lookup_safe sale\<close> Some assms have "print_warning out w st = Inr st1"
      by (simp add: sale_step_anomaly)
    with Some show ?thesis by (simp add: print_safe_def print_warning_Inr)
  qed
qed

lemma sales_loop_returns_safe:
  assumes "sales_loop out st S = Inr st'" and "sale \<in> set S"
  shows "lookup_safe sale
         \<and> (counted (price_dict st) sale \<longrightarrow> arith_safe (price_dict st) sale)
         \<and> print_safe out (price_dict st) sale"
  using assms
proof (induction S arbitrary: st)
  case Nil
  then show ?case by simp
next
  case (Cons s rest)
  from Cons.prems(1) obtain st1 where step: "sale_step out st s = Inr st1"
    and loop: "sales_loop out st1 rest = Inr st'"
    by (auto split: sum.splits)
  from sale_step_price_dict [OF step] have pd: "price_dict st1 = price_dict st" .
  show ?case
  proof (cases "sale = s")
    case True
    with sale_step_returns_safe [OF step] show ?thesis by simp
  next
    case False
    with Cons.prems(2) have "sale \<in> set rest" by simp
    from Cons.IH [OF loop this] show ?thesis by (simp add: pd)
  qed
qed

lemma func_total_cost_returns_iff:
  "(\<exists>st. func_total_cost out C S = Inr st) \<longleftrightarrow>
   (\<forall>sale \<in> set S. lookup_safe sale \<and> (counted C sale \<longrightarrow> arith_safe C sale)
                     \<and> print_safe out C sale)"
proof
  assume "\<exists>st. func_total_cost out C S = Inr st"
  then obtain st where "sales_loop out (initial C) S = Inr st"
    by (auto simp: func_total_cost_def)
  from sales_loop_returns_safe [OF this]
  show "\<forall>sale \<in> set S. lookup_safe sale \<and> (counted C sale \<longrightarrow> arith_safe C sale)
                     \<and> print_safe out C sale"
    by (simp add: initial_def)
next
  assume "\<forall>sale \<in> set S. lookup_safe sale \<and> (counted C sale \<longrightarrow> arith_safe C sale)
                     \<and> print_safe out C sale"
  with sales_loop_runs [of S "initial C" out]
  show "\<exists>st. func_total_cost out C S = Inr st"
    by (auto simp: func_total_cost_def initial_def)
qed

text \<open>
  Claim C4, as the code has it. The function has no exception handler, and three
  things make it raise: a list or a dictionary as product name that reaches the
  catalogue lookup (\<^verbatim>\<open>TypeError\<close>), an integer too large for a float in the arithmetic
  (\<^verbatim>\<open>OverflowError\<close>), and a warning whose line the standard output does not take
  (\<^verbatim>\<open>UnicodeEncodeError\<close> from \<^verbatim>\<open>print\<close>). On every catalogue and sales list free of the
  three, the call returns, it has processed all the records in input order (the lines
  printed are the warnings of all the anomalous records, in that order), and each
  anomaly has become a warning and no contribution. The claim as stated fails on a
  sales list that starts with \<^verbatim>\<open>{"Product": ["Gum"], "Quantity": 1}\<close>: the call raises
  \<^verbatim>\<open>TypeError\<close> at the first record, and the records after it are never looked at.
\<close>

theorem func_total_cost_no_raise:
  assumes "\<forall>sale \<in> set sales_list. lookup_safe sale"
    and "\<forall>sale \<in> set sales_list. counted C sale \<longrightarrow> arith_safe C sale"
    and "\<forall>sale \<in> set sales_list. print_safe out C sale"
  shows "\<exists>st. func_total_cost out C sales_list = Inr st
           \<and> printed st = List.map_filter (anomaly C) sales_list
           \<and> spec_total C sales_list = Inr (total_cost st)"
proof -
  from sales_loop_runs [of sales_list "initial C" out] assms
  obtain st where run: "sales_loop out (initial C) sales_list = Inr st"
    and pr: "printed st = List.map_filter (anomaly C) sales_list"
    by (auto simp: initial_def)
  from sales_loop_total [OF run] have "spec_total C sales_list = Inr (total_cost st)"
    by (simp add: spec_total_def initial_def)
  with run pr show ?thesis by (simp add: func_total_cost_def)
qed

theorem func_total_cost_raises_counterexample:
  "func_total_cost utf8_strict gum_catalogue (list_sale # gum_sales)
     = Inl (TypeError, initial gum_catalogue)"
  by (simp add: func_total_cost_def list_sale_def sale_step_def check_quantity_def
      add_sale_def dict_get_def)

lemma gum_sales_safe:
  "\<forall>sale \<in> set gum_sales. lookup_safe sale"
  "\<forall>sale \<in> set gum_sales. counted gum_catalogue sale \<longrightarrow> arith_safe gum_catalogue sale"
  "\<forall>sale \<in> set gum_sales. print_safe utf8_strict gum_catalogue sale"
  by (simp_all add: gum_sales_def lookup_safe_def dict_get_def arith_safe_def contribution_def
      gum_catalogue_def num_mul_def float_eval print_safe_def anomaly_def in_catalogue_def
      isinstance_int_float_def)

theorem func_total_cost_no_raise_witness:
  "\<exists>st. func_total_cost utf8_strict gum_catalogue gum_sales = Inr st
        \<and> printed st = [NotFound (PStr ''Candy'')]
        \<and> spec_total gum_catalogue gum_sales = Inr (total_cost st)"
proof -
  have "List.map_filter (anomaly gum_catalogue) gum_sales = [NotFound (PStr ''Candy'')]"
    by (simp add: map_filter_simps gum_sales_def anomaly_def dict_get_def in_catalogue_def
        isinstance_int_float_def gum_catalogue_def)
  with func_total_cost_no_raise [OF gum_sales_safe] show ?thesis by simp
qed

text \<open>The second exception: the total cannot take an integer that no float holds.\<close>

lemma huge_price_overflows:
  "func_total_cost utf8_strict huge_catalogue (candy_sale # gum_sales)
     = Inl (OverflowError, \<lparr>price_dict = huge_catalogue, total_cost = Fin 0,
              printed = [NotFound (PStr ''Candy'')]\<rparr>)"
proof -
  have "float_of_int (10 ^ 400 * 3) = Inl OverflowError"
    by (rule float_of_int_overflows) simp
  then show ?thesis
    by (simp add: candy_sale_def gum_sales_def huge_catalogue_def run_defs)
qed


section \<open>Determinism\<close>

lemma sale_exec_deterministic:
  assumes "sale_exec out st sale r1" and "sale_exec out st sale r2"
  shows "r1 = r2"
  using assms
  by (induction rule: sale_exec.induct) (auto elim!: sale_exec.cases)

lemma run_exec_deterministic:
  assumes "run_exec out st S r1" and "run_exec out st S r2"
  shows "r1 = r2"
  using assms
proof (induction arbitrary: r2 rule: run_exec.induct)
  case (finished out st)
  then show ?case by (auto elim: run_exec.cases)
next
  case (raised out st sale e rest)
  from raised.prems show ?case
  proof (cases rule: run_exec.cases)
    case (raised e')
    with sale_exec_deterministic [OF raised.hyps] show ?thesis by auto
  next
    case (continued st')
    with sale_exec_deterministic [OF raised.hyps] show ?thesis by auto
  qed
next
  case (continued out st sale st' rest r)
  from continued.prems show ?case
  proof (cases rule: run_exec.cases)
    case (raised e')
    with sale_exec_deterministic [OF continued.hyps(1)] show ?thesis by auto
  next
    case c: (continued st'')
    with sale_exec_deterministic [OF continued.hyps(1)] have "st'' = st'" by auto
    with c continued.IH show ?thesis by simp
  qed
qed

lemma sale_exec_sale_step: "sale_exec out st sale (sale_step out st sale)"
proof (cases "truthy (dict_get sale ''Product'')")
  case False
  then show ?thesis
    by (simp add: sale_step_def print_warning_def Let_def no_name no_name_unprinted)
next
  case p: True
  show ?thesis
  proof (cases "as_num (dict_get sale ''Quantity'')")
    case None
    with p show ?thesis
      by (simp add: sale_step_def check_quantity_def print_warning_def Let_def bad_quantity
          bad_quantity_unprinted)
  next
    case q: (Some q)
    show ?thesis
    proof (cases "key_of (dict_get sale ''Product'')")
      case None
      with p q show ?thesis
        by (simp add: sale_step_def check_quantity_def add_sale_def unhashable)
    next
      case k: (Some k)
      show ?thesis
      proof (cases "price_dict st k")
        case None
        with p q k show ?thesis
          by (simp add: sale_step_def check_quantity_def add_sale_def print_warning_def
              Let_def not_found not_found_unprinted)
      next
        case pr: (Some price)
        show ?thesis
        proof (cases "num_mul price q")
          case (Inl e)
          with p q k pr show ?thesis
            by (simp add: sale_step_def check_quantity_def add_sale_def product_raises)
        next
          case c: (Inr c)
          show ?thesis
          proof (cases "float_iadd (total_cost st) c")
            case (Inl e)
            with p q k pr c show ?thesis
              by (simp add: sale_step_def check_quantity_def add_sale_def sum_raises)
          next
            case (Inr t)
            with p q k pr c show ?thesis
              by (simp add: sale_step_def check_quantity_def add_sale_def accumulated)
          qed
        qed
      qed
    qed
  qed
qed

lemma run_exec_sales_loop: "run_exec out st S (sales_loop out st S)"
proof (induction S arbitrary: st)
  case Nil
  show ?case by (simp add: finished)
next
  case (Cons sale rest)
  show ?case
  proof (cases "sale_step out st sale")
    case (Inl e)
    with sale_exec_sale_step [of out st sale] show ?thesis by (simp add: raised)
  next
    case (Inr st')
    with sale_exec_sale_step [of out st sale] Cons.IH [of st'] show ?thesis
      by (auto intro: continued)
  qed
qed

lemma func_total_cost_run_iff:
  "func_total_cost_run out C S r \<longleftrightarrow> func_total_cost out C S = r"
  using run_exec_sales_loop [of out "initial C" S]
    run_exec_deterministic [of out "initial C" S]
  by (auto simp: func_total_cost_run_def func_total_cost_def)




section \<open>The running total\<close>

lemma sale_step_total:
  assumes "sale_step out st sale = Inr st'"
  shows "total_cost st' = total_cost st
         \<or> (counted (price_dict st) sale
            \<and> (\<exists>c x. contribution (price_dict st) sale = Inr c \<and> to_float c = Inr x
                  \<and> total_cost st' = fadd (total_cost st) x))"
proof (cases "counted (price_dict st) sale")
  case True
  with assms show ?thesis
    by (auto simp: sale_step_counted split: sum.splits)
next
  case False
  from sale_step_not_counted [OF False assms] show ?thesis by (auto simp: with_line_def)
qed

lemma sale_step_is_double:
  assumes "is_double (total_cost st)" and "sale_step out st sale = Inr st'"
  shows "is_double (total_cost st')"
  using sale_step_total [OF assms(2)] assms(1) by (auto simp: is_double_fadd)

lemma sales_loop_is_double:
  "is_double (total_cost st) \<Longrightarrow> sales_loop out st S = Inr st'
   \<Longrightarrow> is_double (total_cost st')"
proof (induction S arbitrary: st)
  case Nil
  then show ?case by simp
next
  case (Cons sale rest)
  from Cons.prems(2) obtain st1 where step: "sale_step out st sale = Inr st1"
    and loop: "sales_loop out st1 rest = Inr st'"
    by (auto split: sum.splits)
  from sale_step_is_double [OF Cons.prems(1) step] loop show ?case by (rule Cons.IH)
qed

lemma func_total_cost_reaches:
  assumes "func_total_cost out C S = Inr st"
  shows "is_double (total_cost st)" and "price_dict st = C"
proof -
  have "is_double (total_cost (initial C))"
    by (simp add: initial_def is_double_def round_double_zero)
  with assms show "is_double (total_cost st)"
    unfolding func_total_cost_def by (rule sales_loop_is_double [rotated])
  from sales_loop_price_dict [of out "initial C" S] assms show "price_dict st = C"
    by (simp add: func_total_cost_def final_state_def initial_def)
qed

text \<open>
  Claim C5, as the code has it. The sign of a quantity is never tested, so a record with
  a negative contribution can lower the total: with Gum at \<open>2.0\<close>, the record
  \<^verbatim>\<open>{"Product": "Gum", "Quantity": -1}\<close> takes the total from \<open>0.0\<close> to \<open>-2.0\<close>. What holds
  is this: at any point of a run, a record whose contribution \<open>price * quantity\<close> is
  not negative, and any record that does not count, never decreases the running total.
\<close>

theorem total_never_decreases:
  assumes "func_total_cost out C before = Inr st"
    and "sale_step out st sale = Inr st'"
    and "counted C sale \<longrightarrow> nonneg_contribution C sale"
  shows "\<not> flt (total_cost st') (total_cost st)"
proof -
  note reach = func_total_cost_reaches [OF assms(1)]
  from sale_step_total [OF assms(2)] show ?thesis
  proof
    assume "total_cost st' = total_cost st"
    then show ?thesis by (simp add: flt_irrefl)
  next
    assume "counted (price_dict st) sale
            \<and> (\<exists>c x. contribution (price_dict st) sale = Inr c \<and> to_float c = Inr x
                  \<and> total_cost st' = fadd (total_cost st) x)"
    then obtain c x where cnt: "counted C sale"
      and c: "contribution C sale = Inr c" and x: "to_float c = Inr x"
      and t: "total_cost st' = fadd (total_cost st) x"
      by (auto simp: reach(2))
    from cnt c assms(3) have "num_nonneg c" by (simp add: nonneg_contribution_def)
    from to_float_nonneg [OF this x] have "fle (Fin 0) x" .
    from fadd_never_decreases [OF reach(1) this] show ?thesis by (simp add: t)
  qed
qed

theorem total_decreases_counterexample:
  "counted gum_catalogue refund_sale
   \<and> func_total_cost utf8_strict gum_catalogue [refund_sale] =
       Inr \<lparr>price_dict = gum_catalogue, total_cost = Fin (- 2), printed = []\<rparr>
   \<and> flt (Fin (- 2)) (total_cost (initial gum_catalogue))"
  by (simp add: counted_def in_catalogue_def isinstance_int_float_def refund_sale_def
      gum_catalogue_def run_defs float_eval float_eval_neg)

theorem total_never_decreases_witness:
  "func_total_cost utf8_strict gum_catalogue [candy_sale] =
     Inr \<lparr>price_dict = gum_catalogue, total_cost = Fin 0,
          printed = [NotFound (PStr ''Candy'')]\<rparr>
   \<and> sale_step utf8_strict \<lparr>price_dict = gum_catalogue, total_cost = Fin 0,
                 printed = [NotFound (PStr ''Candy'')]\<rparr> gum_sale =
       Inr \<lparr>price_dict = gum_catalogue, total_cost = Fin 6,
            printed = [NotFound (PStr ''Candy'')]\<rparr>
   \<and> nonneg_contribution gum_catalogue gum_sale
   \<and> \<not> flt (Fin 6) (Fin 0)"
proof -
  have h1: "func_total_cost utf8_strict gum_catalogue [candy_sale] =
     Inr \<lparr>price_dict = gum_catalogue, total_cost = Fin 0,
          printed = [NotFound (PStr ''Candy'')]\<rparr>"
    by (simp add: candy_sale_def gum_catalogue_def run_defs)
  have h2: "sale_step utf8_strict \<lparr>price_dict = gum_catalogue, total_cost = Fin 0,
                 printed = [NotFound (PStr ''Candy'')]\<rparr> gum_sale =
       Inr \<lparr>price_dict = gum_catalogue, total_cost = Fin 6,
            printed = [NotFound (PStr ''Candy'')]\<rparr>"
    by (simp add: gum_sale_def gum_catalogue_def sale_step_def check_quantity_def
        add_sale_def dict_get_def num_mul_def float_iadd_def float_eval)
  have h3: "nonneg_contribution gum_catalogue gum_sale"
    by (simp add: nonneg_contribution_def contribution_def gum_sale_def gum_catalogue_def
        dict_get_def num_mul_def float_eval)
  from h3 have h3': "counted gum_catalogue gum_sale \<longrightarrow> nonneg_contribution gum_catalogue gum_sale"
    by simp
  from total_never_decreases [OF h1 h2 h3'] h1 h2 h3 show ?thesis by simp
qed

end
